theory Spec2Isabelle
  imports Main "HOL-Library.Word"
begin

section \<open>mozdefevents: a shallow embedding of main.go\<close>

text \<open>
  The program is a command-line search client: it builds a boolean query, walks the
  day-bucketed indices of a date range, pages through every index, normalises each
  decoded document and prints one line per event. Each Go function is a HOL function of
  the same name. The global \<open>cfg\<close> is passed explicitly; the search backend, the JSON
  decoder and the formatting verbs of the standard library that the program only calls
  are parameters.
\<close>

subsection \<open>Data\<close>

text \<open>
  A \<open>time.Time\<close> in UTC is the number of nanoseconds since the Unix epoch. Go's \<open>int\<close>
  is the 64-bit machine integer, so \<open>+\<close> on it wraps around. A Go \<open>error\<close> is its message.
\<close>

type_synonym time = int

type_synonym go_int = "64 word"

datatype error = Error string

text \<open>The anonymous struct \<open>event.Details\<close>; its fields carry the prefix \<open>Details_\<close>.\<close>

record details =
  Details_Hostname :: string
  Details_Command :: string
  Details_DHost :: string
  Details_DProc :: string
  Details_DUser :: string
  Details_SUser :: string
  Details_Fname :: string
  Details_Name :: string
  Details_ProcessName :: string
  Details_OriginalUser :: string
  Details_User :: string
  Details_Path :: string

record event =
  Category :: string
  Hostname :: string
  Timestamp :: time
  UTCTimestamp :: time
  Summary :: string
  Details :: details

subsection \<open>normalize\<close>

text \<open>
  \<open>strings.Trim(s, cutset)\<close>: the leading characters of the cutset are dropped, then the
  trailing ones.
\<close>

definition TrimLeft :: "string \<Rightarrow> string \<Rightarrow> string" where
  "TrimLeft s cutset = dropWhile (\<lambda>c. c \<in> set cutset) s"

definition TrimRight :: "string \<Rightarrow> string \<Rightarrow> string" where
  "TrimRight s cutset = rev (dropWhile (\<lambda>c. c \<in> set cutset) (rev s))"

definition Trim :: "string \<Rightarrow> string \<Rightarrow> string" where
  "Trim s cutset = TrimRight (TrimLeft s cutset) cutset"

text \<open>
  \<open>normalize\<close> is a sequence of six guarded assignments and the trim of the summary, in
  the order of the source. Its error result is always \<open>nil\<close>; the model returns the event.
\<close>

definition normalize :: "event \<Rightarrow> event" where
  "normalize e0 =
    (let e1 = (if Hostname e0 = [] \<and> Details_DHost (Details e0) \<noteq> []
               then e0\<lparr>Hostname := Details_DHost (Details e0)\<rparr> else e0);
         e2 = (if Details_User (Details e1) = [] \<and> Details_DUser (Details e1) \<noteq> []
               then e1\<lparr>Details := (Details e1)\<lparr>Details_User := Details_DUser (Details e1)\<rparr>\<rparr>
               else e1);
         e3 = (if Details_Path (Details e2) = [] \<and> Details_Fname (Details e2) \<noteq> []
               then e2\<lparr>Details := (Details e2)\<lparr>Details_Path := Details_Fname (Details e2)\<rparr>\<rparr>
               else e2);
         e4 = (if Details_OriginalUser (Details e3) = [] \<and> Details_SUser (Details e3) \<noteq> []
               then e3\<lparr>Details :=
                        (Details e3)\<lparr>Details_OriginalUser := Details_SUser (Details e3)\<rparr>\<rparr>
               else e3);
         e5 = (if Details_ProcessName (Details e4) = [] \<and> Details_DProc (Details e4) \<noteq> []
               then e4\<lparr>Details :=
                        (Details e4)\<lparr>Details_ProcessName := Details_DProc (Details e4)\<rparr>\<rparr>
               else e4);
         e6 = (if Details_Name (Details e5) = ''Unix Exec''
               then e5\<lparr>Category := ''execve''\<rparr> else e5)
     in e6\<lparr>Summary := Trim (Summary e6) [CHR '' '', CHR 0x0A]\<rparr>)"

text \<open>
  The zero value of \<open>time.Time\<close> is 1 January of year 1, 00:00:00 UTC, which is
  62135596800 seconds before the Unix epoch. The zero value of \<open>event\<close>, as
  \<open>var nev event\<close> declares it, has it in both timestamps.
\<close>

definition zero_Time :: time where
  "zero_Time = - 62135596800000000000"

definition zero_details :: details where
  "zero_details = \<lparr>Details_Hostname = [], Details_Command = [], Details_DHost = [],
     Details_DProc = [], Details_DUser = [], Details_SUser = [], Details_Fname = [],
     Details_Name = [], Details_ProcessName = [], Details_OriginalUser = [],
     Details_User = [], Details_Path = []\<rparr>"

definition zero_event :: event where
  "zero_event = \<lparr>Category = [], Hostname = [], Timestamp = zero_Time,
     UTCTimestamp = zero_Time, Summary = [], Details = zero_details\<rparr>"

subsection \<open>Calendar dates and the layouts of \<open>time.Format\<close>\<close>

text \<open>
  \<open>time.Time.Format\<close> belongs to Go's standard library. The program uses the layouts
  \<open>20060102\<close> and \<open>time.RFC3339\<close> on times in UTC. The model follows the library:
  \<open>absDate\<close> splits the days since 1 January of year 1 into cycles of 400, 100, 4 and 1
  years, \<open>date\<close> finds month and day of month in the table \<open>daysBefore\<close>, and \<open>appendInt\<close>
  writes a number with leading zeros. Division is on days counted from year 1 and rounds
  down, which agrees with the library's unsigned arithmetic from its own earlier epoch.
\<close>

definition nsPerSecond :: int where
  "nsPerSecond = 1000000000"

definition secondsPerDay :: int where
  "secondsPerDay = 86400"

text \<open>The whole seconds since the Unix epoch, and the days from 0001-01-01 to that second.\<close>

definition unixSec :: "time \<Rightarrow> int" where
  "unixSec t = t div nsPerSecond"

definition absDays :: "time \<Rightarrow> int" where
  "absDays t = unixSec t div secondsPerDay + 719162"

definition isLeap :: "int \<Rightarrow> bool" where
  "isLeap year = (year mod 4 = 0 \<and> (year mod 100 \<noteq> 0 \<or> year mod 400 = 0))"

text \<open>\<open>absDate\<close>: the year and the zero-based day of the year of a day number.\<close>

definition absDate :: "int \<Rightarrow> int \<times> int" where
  "absDate days =
    (let n400 = days div 146097;
         d1 = days - 146097 * n400;
         m100 = d1 div 36524;
         n100 = m100 - m100 div 4;
         d2 = d1 - 36524 * n100;
         n4 = d2 div 1461;
         d3 = d2 - 1461 * n4;
         m1 = d3 div 365;
         n1 = m1 - m1 div 4;
         d4 = d3 - 365 * n1
     in (400 * n400 + 100 * n100 + 4 * n4 + n1 + 1, d4))"

definition daysBefore :: "int list" where
  "daysBefore = [0, 31, 59, 90, 120, 151, 181, 212, 243, 273, 304, 334, 365]"

text \<open>\<open>date\<close>: year, month (1 to 12) and day of the month of a day number.\<close>

definition monthDay :: "bool \<Rightarrow> int \<Rightarrow> int \<times> int" where
  "monthDay leap yday =
    (if leap \<and> yday = 31 + 29 - 1 then (2, 29)
     else
       (let day = (if leap \<and> yday > 31 + 29 - 1 then yday - 1 else yday);
            month = day div 31;
            end = daysBefore ! nat (month + 1);
            (month', begin) = (if day \<ge> end then (month + 1, end)
                               else (month, daysBefore ! nat month))
        in (month' + 1, day - begin + 1)))"

definition date :: "int \<Rightarrow> int \<times> int \<times> int" where
  "date days =
    (let (year, yday) = absDate days;
         (month, day) = monthDay (isLeap year) yday
     in (year, month, day))"

text \<open>\<open>appendInt\<close>: the decimal digits of a number, zero-padded to a width, after its sign.\<close>

function digits :: "nat \<Rightarrow> string" where
  "digits u = (if u \<ge> 10 then digits (u div 10) @ [char_of (48 + u mod 10)]
               else [char_of (48 + u)])"
  by pat_completeness auto
termination
  by (relation "measure id") auto

declare digits.simps [simp del]

definition appendInt :: "int \<Rightarrow> nat \<Rightarrow> string" where
  "appendInt x width =
    (let ds = digits (nat \<bar>x\<bar>)
     in (if x < 0 then ''-'' else []) @ replicate (width - length ds) (CHR ''0'') @ ds)"

text \<open>Layout \<open>20060102\<close>: the year, the month and the day of the day number of a time.\<close>

definition formatDate :: "int \<Rightarrow> string" where
  "formatDate days =
    (let (year, month, day) = date days
     in appendInt year 4 @ appendInt month 2 @ appendInt day 2)"

definition Format_20060102 :: "time \<Rightarrow> string" where
  "Format_20060102 t = formatDate (absDays t)"

text \<open>Layout \<open>time.RFC3339\<close>, \<open>2006-01-02T15:04:05Z07:00\<close>; the zone of a UTC time is \<open>Z\<close>.\<close>

definition Format_RFC3339 :: "time \<Rightarrow> string" where
  "Format_RFC3339 t =
    (let (year, month, day) = date (absDays t);
         secs = unixSec t mod secondsPerDay;
         hour = secs div 3600;
         minute = (secs mod 3600) div 60;
         second = secs mod 60
     in appendInt year 4 @ ''-'' @ appendInt month 2 @ ''-'' @ appendInt day 2 @ ''T'' @
        appendInt hour 2 @ '':'' @ appendInt minute 2 @ '':'' @ appendInt second 2 @ ''Z'')"

text \<open>
  A \<open>time.Duration\<close> is a signed 64-bit count of nanoseconds; \<open>Time.Sub\<close> saturates at its
  bounds, \<open>Time.Add\<close> moves the instant.
\<close>

definition maxDuration :: int where
  "maxDuration = 2 ^ 63 - 1"

definition minDuration :: int where
  "minDuration = - (2 ^ 63)"

definition Sub :: "time \<Rightarrow> time \<Rightarrow> int" where
  "Sub t u = (if t - u > maxDuration then maxDuration
              else if t - u < minDuration then minDuration else t - u)"

definition Add :: "time \<Rightarrow> int \<Rightarrow> time" where
  "Add t d = t + d"

definition Hour :: int where
  "Hour = 3600 * nsPerSecond"

subsection \<open>The configuration and the query document\<close>

record config =
  eshost :: string
  startDate :: time
  endDate :: time
  hostmatch :: string
  results :: "event list"

text \<open>
  A Go map is a partial function; the nil map and the empty map are both \<open>Map.empty\<close>
  (\<open>omitempty\<close> treats them alike, and \<open>defaultSettings\<close> never leaves \<open>Sort\<close> nil).
\<close>

record queryCriteria =
  QueryString :: "string \<rightharpoonup> string"
  Term :: "string \<rightharpoonup> string"
  Match :: "string \<rightharpoonup> string"
  Range_q :: "string \<rightharpoonup> (string \<rightharpoonup> string)"

record boolQuery =
  Must :: "queryCriteria list"
  Should :: "queryCriteria list"
  MinShouldMatch :: go_int

record query =
  Bool :: boolQuery

record queryContainer =
  From :: go_int
  Size :: go_int
  Sort :: "string \<rightharpoonup> string"
  Query :: query

definition docsPerSearch :: go_int where
  "docsPerSearch = 100"

text \<open>The zero values, as \<open>var qc queryCriteria\<close> and \<open>var ret queryContainer\<close> declare them.\<close>

definition zero_queryCriteria :: queryCriteria where
  "zero_queryCriteria =
    \<lparr>QueryString = Map.empty, Term = Map.empty, Match = Map.empty, Range_q = Map.empty\<rparr>"

definition zero_queryContainer :: queryContainer where
  "zero_queryContainer = \<lparr>From = 0, Size = 0, Sort = Map.empty,
     Query = \<lparr>Bool = \<lparr>Must = [], Should = [], MinShouldMatch = 0\<rparr>\<rparr>\<rparr>"

text \<open>Assignments to the nested fields \<open>q.Query.Bool.Must\<close> and \<open>q.Query.Bool.Should\<close>.\<close>

definition append_Must :: "queryContainer \<Rightarrow> queryCriteria \<Rightarrow> queryContainer" where
  "append_Must q qc =
    q\<lparr>Query := (Query q)\<lparr>Bool := (Bool (Query q))\<lparr>Must := Must (Bool (Query q)) @ [qc]\<rparr>\<rparr>\<rparr>"

definition append_Should :: "queryContainer \<Rightarrow> queryCriteria \<Rightarrow> queryContainer" where
  "append_Should q qc =
    q\<lparr>Query := (Query q)\<lparr>Bool := (Bool (Query q))\<lparr>Should := Should (Bool (Query q)) @ [qc]\<rparr>\<rparr>\<rparr>"

text \<open>
  \<open>defaultSettings\<close> returns the updated receiver with its error, which is always \<open>nil\<close>.
  \<open>fmt.Sprintf("hostname: /%v/", s)\<close> puts the string between the two fixed parts.
\<close>

definition defaultSettings :: "config \<Rightarrow> queryContainer \<Rightarrow> error option \<times> queryContainer" where
  "defaultSettings cfg q0 =
    (let q1 = q0\<lparr>From := 0\<rparr>;
         q2 = q1\<lparr>Size := docsPerSearch\<rparr>;
         q3 = q2\<lparr>Sort := [''utctimestamp'' \<mapsto> ''asc'']\<rparr>;
         q4 = q3\<lparr>Query := (Query q3)\<lparr>Bool := (Bool (Query q3))\<lparr>MinShouldMatch := 1\<rparr>\<rparr>\<rparr>;
         qc = zero_queryCriteria\<lparr>Range_q := [''utctimestamp'' \<mapsto>
                [''gte'' \<mapsto> Format_RFC3339 (startDate cfg),
                 ''lte'' \<mapsto> Format_RFC3339 (endDate cfg)]]\<rparr>;
         q5 = append_Must q4 qc
     in if hostmatch cfg \<noteq> [] then
          (let qa = zero_queryCriteria\<lparr>QueryString :=
                      [''query'' \<mapsto> ''hostname: /'' @ hostmatch cfg @ ''/'']\<rparr>;
               q6 = append_Should q5 qa;
               qb = zero_queryCriteria\<lparr>QueryString :=
                      [''query'' \<mapsto> ''details.dhost: /'' @ hostmatch cfg @ ''/'']\<rparr>;
               q7 = append_Should q6 qb;
               qd = zero_queryCriteria\<lparr>QueryString :=
                      [''query'' \<mapsto> ''details.hostname: /'' @ hostmatch cfg @ ''/'']\<rparr>;
               q8 = append_Should q7 qd
           in (None, q8))
        else (None, q5))"

definition addMatch :: "queryContainer \<Rightarrow> string \<Rightarrow> string \<Rightarrow> queryContainer" where
  "addMatch q key val = append_Must q (zero_queryCriteria\<lparr>Match := [key \<mapsto> val]\<rparr>)"

definition buildAuditSearch :: "config \<Rightarrow> queryContainer \<times> error option" where
  "buildAuditSearch cfg =
    (case defaultSettings cfg zero_queryContainer of
       (Some err, ret) \<Rightarrow> (ret, Some err)
     | (None, ret) \<Rightarrow> (addMatch ret ''_type'' ''auditd'', None))"

definition buildSyslogSearch :: "config \<Rightarrow> queryContainer \<times> error option" where
  "buildSyslogSearch cfg =
    (case defaultSettings cfg zero_queryContainer of
       (Some err, ret) \<Rightarrow> (ret, Some err)
     | (None, ret) \<Rightarrow>
         (addMatch (addMatch ret ''_type'' ''event'') ''category'' ''syslog'', None))"

subsection \<open>The JSON form of the query\<close>

text \<open>
  \<open>encoding/json\<close> writes a struct field under the name of its tag, in the order of
  declaration, and leaves a field tagged \<open>omitempty\<close> out when it is an empty map or slice.
  A struct is a list of named members, a Go map a partial function on its keys.
\<close>

datatype json =
    JNumber int
  | JString string
  | JArray "json list"
  | JObject "(string \<times> json) list"
  | JMap "string \<Rightarrow> json option"

definition marshal_map :: "(string \<rightharpoonup> string) \<Rightarrow> json" where
  "marshal_map m = JMap (\<lambda>k. map_option JString (m k))"

definition marshal_map2 :: "(string \<rightharpoonup> (string \<rightharpoonup> string)) \<Rightarrow> json" where
  "marshal_map2 m = JMap (\<lambda>k. map_option marshal_map (m k))"

definition marshal_queryCriteria :: "queryCriteria \<Rightarrow> json" where
  "marshal_queryCriteria qc = JObject
    ((if QueryString qc = Map.empty then [] else [(''query_string'', marshal_map (QueryString qc))]) @
     (if Term qc = Map.empty then [] else [(''term'', marshal_map (Term qc))]) @
     (if Match qc = Map.empty then [] else [(''match'', marshal_map (Match qc))]) @
     (if Range_q qc = Map.empty then [] else [(''range'', marshal_map2 (Range_q qc))]))"

definition marshal_boolQuery :: "boolQuery \<Rightarrow> json" where
  "marshal_boolQuery b = JObject
    ((if Must b = [] then [] else [(''must'', JArray (map marshal_queryCriteria (Must b)))]) @
     (if Should b = [] then [] else [(''should'', JArray (map marshal_queryCriteria (Should b)))]) @
     [(''minimum_should_match'', JNumber (sint (MinShouldMatch b)))])"

definition marshal_queryContainer :: "queryContainer \<Rightarrow> json" where
  "marshal_queryContainer q = JObject
    [(''from'', JNumber (sint (From q))),
     (''size'', JNumber (sint (Size q))),
     (''sort'', marshal_map (Sort q)),
     (''query'', JObject [(''bool'', marshal_boolQuery (Bool (Query q)))])]"

text \<open>The member of a JSON object under a name.\<close>

fun json_member :: "json \<Rightarrow> string \<Rightarrow> json option" where
  "json_member (JObject kvs) k = map_of kvs k"
| "json_member (JMap m) k = m k"
| "json_member _ k = None"

text \<open>The value reached from a JSON value along a path of names.\<close>

fun json_path :: "json \<Rightarrow> string list \<Rightarrow> json option" where
  "json_path j [] = Some j"
| "json_path j (k # ks) =
    (case json_member j k of None \<Rightarrow> None | Some j' \<Rightarrow> json_path j' ks)"

subsection \<open>The search backend and the run state\<close>

text \<open>
  The backend is the external collaborator behind \<open>conn.Search\<close>: from its own state and a
  request it gives an error or the hits of one page, and its next state. A hit carries the
  raw source of a document; \<open>json.Unmarshal\<close> into a fresh \<open>event\<close> is an error or the
  decoded event. The run state holds the global \<open>cfg\<close>, the state of the backend and the
  requests sent so far, oldest first.
\<close>

record request =
  req_domain :: string
  req_index :: string
  req_doctype :: string
  req_query :: queryContainer

type_synonym ('s, 'src) search = "'s \<Rightarrow> request \<Rightarrow> (error + 'src list) \<times> 's"

type_synonym 'src unmarshal = "'src \<Rightarrow> error + event"

record 's run =
  cfg :: config
  backend :: 's
  requests :: "request list"

subsection \<open>runQueryIndex\<close>

text \<open>
  The inner loop over the hits of one page: the first document that does not decode ends
  it with the error, the events decoded before it staying in \<open>cfg.results\<close>.
\<close>

fun runQueryIndex_hits :: "'src unmarshal \<Rightarrow> config \<Rightarrow> 'src list \<Rightarrow> error option \<times> config" where
  "runQueryIndex_hits unmarshal c [] = (None, c)"
| "runQueryIndex_hits unmarshal c (x # xs) =
    (case unmarshal x of
       Inl err \<Rightarrow> (Some err, c)
     | Inr nev \<Rightarrow>
         runQueryIndex_hits unmarshal (c\<lparr>results := results c @ [normalize nev]\<rparr>) xs)"

text \<open>
  The page loop \<open>for i := 0; ; i += docsPerSearch\<close> has no bound of its own, so the model
  counts the pages it may still request: \<open>None\<close> is a loop that has not ended within the
  count. A search error ends it, an empty page ends it without error, and any other page
  is decoded and followed by the request at \<open>From + docsPerSearch\<close>.
\<close>

fun runQueryIndex_loop ::
  "nat \<Rightarrow> ('s, 'src) search \<Rightarrow> 'src unmarshal \<Rightarrow> 's run \<Rightarrow> queryContainer \<Rightarrow> string \<Rightarrow> string \<Rightarrow>
   (error option \<times> 's run) option" where
  "runQueryIndex_loop 0 search unmarshal r qry index doctype = None"
| "runQueryIndex_loop (Suc n) search unmarshal r qry index doctype =
    (let rq = \<lparr>req_domain = eshost (cfg r), req_index = index, req_doctype = doctype,
                req_query = qry\<rparr>;
         (res, b) = search (backend r) rq;
         r1 = r\<lparr>backend := b, requests := requests r @ [rq]\<rparr>
     in case res of
          Inl err \<Rightarrow> Some (Some err, r1)
        | Inr hits \<Rightarrow>
            if length hits = 0 then Some (None, r1)
            else
              (case runQueryIndex_hits unmarshal (cfg r1) hits of
                 (Some err, c) \<Rightarrow> Some (Some err, r1\<lparr>cfg := c\<rparr>)
               | (None, c) \<Rightarrow>
                   runQueryIndex_loop n search unmarshal (r1\<lparr>cfg := c\<rparr>)
                     (qry\<lparr>From := From qry + docsPerSearch\<rparr>) index doctype))"

definition runQueryIndex ::
  "nat \<Rightarrow> ('s, 'src) search \<Rightarrow> 'src unmarshal \<Rightarrow> 's run \<Rightarrow> queryContainer \<Rightarrow> string \<Rightarrow> string \<Rightarrow>
   (error option \<times> 's run) option" where
  "runQueryIndex fuel search unmarshal r qry index doctype =
    runQueryIndex_loop fuel search unmarshal r (qry\<lparr>From := 0\<rparr>) index doctype"

text \<open>
  Two notions to state what the page loop does. \<open>page_requests\<close> are the first \<open>n\<close>
  requests of one index: the query with its offset \<open>From\<close> advanced by \<open>docsPerSearch\<close>
  from one request to the next. \<open>answers\<close> says that the backend, asked a list of
  requests in turn from a state, returns a list of pages without an error and ends in
  another state.
\<close>

definition page_requests :: "string \<Rightarrow> queryContainer \<Rightarrow> string \<Rightarrow> string \<Rightarrow> nat \<Rightarrow> request list" where
  "page_requests domain qry index doctype n =
    map (\<lambda>k. \<lparr>req_domain = domain, req_index = index, req_doctype = doctype,
               req_query = qry\<lparr>From := From qry + of_nat k * docsPerSearch\<rparr>\<rparr>) [0..<n]"

fun answers :: "('s, 'src) search \<Rightarrow> 's \<Rightarrow> request list \<Rightarrow> 'src list list \<Rightarrow> 's \<Rightarrow> bool" where
  "answers search b [] [] b' = (b' = b)"
| "answers search b (rq # rqs) (p # ps) b' =
    (case search b rq of
       (Inr hits, b1) \<Rightarrow> hits = p \<and> answers search b1 rqs ps b'
     | (Inl err, b1) \<Rightarrow> False)"
| "answers search b _ _ b' = False"

text \<open>
  Two backend stubs: one hands out a fixed list of pages, one page for each request,
  whatever the request; one fails on a given index and has no document elsewhere.
\<close>

definition stub_pages :: "('src list list, 'src) search" where
  "stub_pages b rq = (case b of [] \<Rightarrow> (Inr [], []) | p # ps \<Rightarrow> (Inr p, ps))"

definition stub_failing :: "string \<Rightarrow> error \<Rightarrow> (unit, 'src) search" where
  "stub_failing index err b rq = (if req_index rq = index then (Inl err, b) else (Inr [], b))"

subsection \<open>runQuery\<close>

text \<open>
  The first loop of \<open>runQuery\<close> lists the indices: one for the day of \<open>dp\<close>, which starts
  at \<open>cfg.startDate\<close> and advances by 24 hours, until fewer than 24 hours remain to
  \<open>cfg.endDate\<close>; then the index of the end date is added unless the list has it.
\<close>

function runQuery_indices :: "time \<Rightarrow> time \<Rightarrow> string list \<Rightarrow> string list" where
  "runQuery_indices end dp indices =
    (let idx = ''events-'' @ Format_20060102 dp;
         indices1 = indices @ [idx]
     in if Sub end dp < Hour * 24 then
          (let idx' = ''events-'' @ Format_20060102 end;
               found = (idx' \<in> set indices1)
           in if \<not> found then indices1 @ [idx'] else indices1)
        else runQuery_indices end (Add dp (Hour * 24)) indices1)"
  by pat_completeness auto
termination
  by (relation "measure (\<lambda>(end, dp, indices). nat (end - dp))")
    (auto simp: Sub_def Add_def Hour_def nsPerSecond_def maxDuration_def minDuration_def
      split: if_splits)

declare runQuery_indices.simps [simp del]

text \<open>The second loop runs the indices in order and returns the first error.\<close>

fun runQuery_run ::
  "nat \<Rightarrow> ('s, 'src) search \<Rightarrow> 'src unmarshal \<Rightarrow> 's run \<Rightarrow> queryContainer \<Rightarrow> string list \<Rightarrow> string \<Rightarrow>
   (error option \<times> 's run) option" where
  "runQuery_run fuel search unmarshal r qry [] doctype = Some (None, r)"
| "runQuery_run fuel search unmarshal r qry (x # xs) doctype =
    (case runQueryIndex fuel search unmarshal r qry x doctype of
       None \<Rightarrow> None
     | Some (Some err, r1) \<Rightarrow> Some (Some err, r1)
     | Some (None, r1) \<Rightarrow> runQuery_run fuel search unmarshal r1 qry xs doctype)"

definition runQuery ::
  "nat \<Rightarrow> ('s, 'src) search \<Rightarrow> 'src unmarshal \<Rightarrow> 's run \<Rightarrow> queryContainer \<Rightarrow> string \<Rightarrow>
   (error option \<times> 's run) option" where
  "runQuery fuel search unmarshal r qry doctype =
    runQuery_run fuel search unmarshal r qry
      (runQuery_indices (endDate (cfg r)) (startDate (cfg r)) []) doctype"

subsection \<open>auditResults and syslogResults\<close>

text \<open>
  The verb \<open>%q\<close> of \<open>fmt\<close> (a quoted Go string) and the verb \<open>%v\<close> on a \<open>time.Time\<close> are
  functions of the standard library, taken as the parameters \<open>quote\<close> and \<open>timeString\<close>.
  \<open>auditResults_evstr\<close> is the value of \<open>evstr\<close> at the end of one iteration.
\<close>

definition auditResults_evstr :: "(string \<Rightarrow> string) \<Rightarrow> event \<Rightarrow> string" where
  "auditResults_evstr quote x =
    (if Category x = ''execve'' then
       (let evstr0 = ''[execve]'';
            origuser = (if Details_OriginalUser (Details x) \<noteq> []
                        then Details_OriginalUser (Details x) else ''none'');
            evstr1 = evstr0 @ '' ('' @ origuser @ ''/'' @ Details_User (Details x) @ '')'';
            evstr2 = (if Details_Command (Details x) \<noteq> []
                      then evstr1 @ '' command:'' @ quote (Details_Command (Details x))
                      else evstr1);
            evstr3 = (if Details_DProc (Details x) \<noteq> []
                      then evstr2 @ '' proc:'' @ quote (Details_ProcessName (Details x))
                      else evstr2);
            evstr4 = (if Details_Path (Details x) \<noteq> []
                      then evstr3 @ '' path:'' @ quote (Details_Path (Details x))
                      else evstr3)
        in evstr4)
     else ''unknown audit event'')"





subsection \<open>main\<close>






definition zero_config :: config where
  "zero_config = \<lparr>eshost = [], startDate = zero_Time, endDate = zero_Time,
     hostmatch = [], results = []\<rparr>"







text \<open>
  The indices before a failing one: \<open>indices_pass\<close> says that \<open>runQueryIndex\<close>, run on the
  indices of a list one after the other, each time from the state the one before has left,
  returns no error on any of them and leaves a given state.
\<close>

fun indices_pass ::
  "nat \<Rightarrow> ('s, 'src) search \<Rightarrow> 'src unmarshal \<Rightarrow> 's run \<Rightarrow> queryContainer \<Rightarrow> string list \<Rightarrow> string \<Rightarrow>
   's run \<Rightarrow> bool" where
  "indices_pass fuel search unmarshal r qry [] doctype r1 = (r1 = r)"
| "indices_pass fuel search unmarshal r qry (x # xs) doctype r1 =
    (case runQueryIndex fuel search unmarshal r qry x doctype of
       Some (None, r') \<Rightarrow> indices_pass fuel search unmarshal r' qry xs doctype r1
     | _ \<Rightarrow> False)"

section \<open>Properties of normalize\<close>

lemma dropWhile_rev_dropWhile:
  "dropWhile P (rev (dropWhile P (rev (dropWhile P s)))) = rev (dropWhile P (rev (dropWhile P s)))"
proof -
  define u where "u = dropWhile P s"
  define t where "t = rev (dropWhile P (rev u))"
  have "dropWhile P t = t"
  proof (cases t)
    case Nil
    then show ?thesis by simp
  next
    case (Cons a t')
    have "\<exists>zs. u = t @ zs"
      unfolding t_def by (metis rev_append rev_rev_ident takeWhile_dropWhile_id)
    with Cons have "hd u = a" "u \<noteq> []" by auto
    then have "\<not> P a" unfolding u_def using hd_dropWhile by metis
    with Cons show ?thesis by simp
  qed
  then show ?thesis by (simp add: t_def u_def)
qed

lemma Trim_idem: "Trim (Trim s c) c = Trim s c"
  by (simp add: Trim_def TrimLeft_def TrimRight_def dropWhile_rev_dropWhile)

text \<open>
  The seven steps of \<open>normalize\<close> on an event given field by field: every fallback
  target takes its source when it is empty and keeps its value otherwise.
\<close>

lemma normalize_literal:
  "normalize \<lparr>Category = c, Hostname = h, Timestamp = t, UTCTimestamp = u, Summary = s,
      Details = \<lparr>Details_Hostname = dh, Details_Command = cmd, Details_DHost = dhost,
        Details_DProc = dproc, Details_DUser = duser, Details_SUser = suser,
        Details_Fname = fname, Details_Name = nm, Details_ProcessName = pn,
        Details_OriginalUser = ou, Details_User = usr, Details_Path = pth\<rparr>\<rparr> =
   \<lparr>Category = (if nm = ''Unix Exec'' then ''execve'' else c),
      Hostname = (if h = [] then dhost else h),
      Timestamp = t, UTCTimestamp = u,
      Summary = Trim s [CHR '' '', CHR 0x0A],
      Details = \<lparr>Details_Hostname = dh, Details_Command = cmd, Details_DHost = dhost,
        Details_DProc = dproc, Details_DUser = duser, Details_SUser = suser,
        Details_Fname = fname, Details_Name = nm,
        Details_ProcessName = (if pn = [] then dproc else pn),
        Details_OriginalUser = (if ou = [] then suser else ou),
        Details_User = (if usr = [] then duser else usr),
        Details_Path = (if pth = [] then fname else pth)\<rparr>\<rparr>"
  (is "normalize ?e = ?r")
proof -
  define e1 where "e1 = (if Hostname ?e = [] \<and> Details_DHost (Details ?e) \<noteq> []
               then ?e\<lparr>Hostname := Details_DHost (Details ?e)\<rparr> else ?e)"
  define e2 where "e2 = (if Details_User (Details e1) = [] \<and> Details_DUser (Details e1) \<noteq> []
               then e1\<lparr>Details := (Details e1)\<lparr>Details_User := Details_DUser (Details e1)\<rparr>\<rparr>
               else e1)"
  define e3 where "e3 = (if Details_Path (Details e2) = [] \<and> Details_Fname (Details e2) \<noteq> []
               then e2\<lparr>Details := (Details e2)\<lparr>Details_Path := Details_Fname (Details e2)\<rparr>\<rparr>
               else e2)"
  define e4 where "e4 = (if Details_OriginalUser (Details e3) = [] \<and> Details_SUser (Details e3) \<noteq> []
               then e3\<lparr>Details :=
                        (Details e3)\<lparr>Details_OriginalUser := Details_SUser (Details e3)\<rparr>\<rparr>
               else e3)"
  define e5 where "e5 = (if Details_ProcessName (Details e4) = [] \<and> Details_DProc (Details e4) \<noteq> []
               then e4\<lparr>Details :=
                        (Details e4)\<lparr>Details_ProcessName := Details_DProc (Details e4)\<rparr>\<rparr>
               else e4)"
  define e6 where "e6 = (if Details_Name (Details e5) = ''Unix Exec''
               then e5\<lparr>Category := ''execve''\<rparr> else e5)"
  have n: "normalize ?e = e6\<lparr>Summary := Trim (Summary e6) [CHR '' '', CHR 0x0A]\<rparr>"
    by (simp only: normalize_def Let_def e1_def e2_def e3_def e4_def e5_def e6_def)
  have c1: "e1 = ?e\<lparr>Hostname := (if h = [] then dhost else h)\<rparr>"
    by (simp add: e1_def)
  have c2: "e2 = e1\<lparr>Details := (Details ?e)\<lparr>Details_User := (if usr = [] then duser else usr)\<rparr>\<rparr>"
    by (simp add: e2_def c1)
  have c3: "e3 = e2\<lparr>Details := (Details e2)\<lparr>Details_Path := (if pth = [] then fname else pth)\<rparr>\<rparr>"
    by (simp add: e3_def c2 c1)
  have c4: "e4 = e3\<lparr>Details := (Details e3)\<lparr>Details_OriginalUser :=
          (if ou = [] then suser else ou)\<rparr>\<rparr>"
    by (simp add: e4_def c3 c2 c1)
  have c5: "e5 = e4\<lparr>Details := (Details e4)\<lparr>Details_ProcessName :=
          (if pn = [] then dproc else pn)\<rparr>\<rparr>"
    by (simp add: e5_def c4 c3 c2 c1)
  have c6: "e6 = e5\<lparr>Category := (if nm = ''Unix Exec'' then ''execve'' else c)\<rparr>"
    by (simp add: e6_def c5 c4 c3 c2 c1)
  show ?thesis
    by (simp add: n c6 c5 c4 c3 c2 c1 split del: if_split)
qed

lemma fallback_idem:
  "(if (if u = [] then v else u) = [] then v else (if u = [] then v else u)) =
   (if u = [] then v else (u::string))"
  by simp

text \<open>
  Claim C3, as the specification states it: \<open>normalize\<close> sets \<open>details.user\<close> to
  \<open>details.source-user\<close> (\<open>suser\<close>) when \<open>details.user\<close> is empty. It does not: on a
  document with an empty \<open>user\<close>, \<open>suser = alice\<close> and \<open>duser = bob\<close>, the user after
  \<open>normalize\<close> is \<open>bob\<close>.
\<close>

theorem normalize_user_counterexample:
  "Details_User (Details (zero_event\<lparr>Details :=
       zero_details\<lparr>Details_SUser := ''alice'', Details_DUser := ''bob''\<rparr>\<rparr>)) = [] \<and>
   Details_SUser (Details (zero_event\<lparr>Details :=
       zero_details\<lparr>Details_SUser := ''alice'', Details_DUser := ''bob''\<rparr>\<rparr>)) = ''alice'' \<and>
   Details_User (Details (normalize (zero_event\<lparr>Details :=
       zero_details\<lparr>Details_SUser := ''alice'', Details_DUser := ''bob''\<rparr>\<rparr>))) = ''bob''"
  by (simp add: zero_event_def zero_details_def normalize_literal)

text \<open>
  Claim C3, amended: \<open>normalize\<close> sets \<open>details.user\<close> to the destination user
  \<open>details.duser\<close> when and only when \<open>details.user\<close> is empty, and sets
  \<open>details.originaluser\<close> to the source user \<open>details.suser\<close> when and only when
  \<open>details.originaluser\<close> is empty; both sources are left as they are.
\<close>

theorem normalize_user_fallbacks:
  "Details_User (Details (normalize e)) =
     (if Details_User (Details e) = [] then Details_DUser (Details e)
      else Details_User (Details e)) \<and>
   Details_OriginalUser (Details (normalize e)) =
     (if Details_OriginalUser (Details e) = [] then Details_SUser (Details e)
      else Details_OriginalUser (Details e)) \<and>
   Details_DUser (Details (normalize e)) = Details_DUser (Details e) \<and>
   Details_SUser (Details (normalize e)) = Details_SUser (Details e)"
  by (cases e; cases "Details e") (simp add: normalize_literal)

text \<open>
  Claim C7: \<open>normalize\<close> is idempotent; a second pass changes nothing of what the first
  pass produced.
\<close>

theorem normalize_idempotent: "normalize (normalize e) = normalize e"
  by (cases e; cases "Details e")
    (simp add: normalize_literal Trim_idem fallback_idem split del: if_split cong: if_cong)

section \<open>Properties of the query builder\<close>

text \<open>The query document that \<open>defaultSettings\<close> makes of the zero value.\<close>

lemma defaultSettings_zero:
  "defaultSettings c zero_queryContainer =
    (None, \<lparr>From = 0, Size = 100, Sort = [''utctimestamp'' \<mapsto> ''asc''],
       Query = \<lparr>Bool = \<lparr>
         Must = [zero_queryCriteria\<lparr>Range_q := [''utctimestamp'' \<mapsto>
        [''gte'' \<mapsto> Format_RFC3339 (startDate c),
         ''lte'' \<mapsto> Format_RFC3339 (endDate c)]]\<rparr>],
         Should = (if hostmatch c = [] then []
      else [zero_queryCriteria\<lparr>QueryString :=
              [''query'' \<mapsto> ''hostname: /'' @ hostmatch c @ ''/'']\<rparr>,
            zero_queryCriteria\<lparr>QueryString :=
              [''query'' \<mapsto> ''details.dhost: /'' @ hostmatch c @ ''/'']\<rparr>,
            zero_queryCriteria\<lparr>QueryString :=
              [''query'' \<mapsto> ''details.hostname: /'' @ hostmatch c @ ''/'']\<rparr>]),
         MinShouldMatch = 1\<rparr>\<rparr>\<rparr>)"
  by (simp add: defaultSettings_def Let_def append_Must_def append_Should_def
      zero_queryContainer_def docsPerSearch_def)

text \<open>
  Claim C5: in audit and in syslog mode, the should-list of the built query is empty when
  the hostname pattern is empty; otherwise it is exactly the three query-string clauses
  \<open>hostname: /p/\<close>, \<open>details.dhost: /p/\<close> and \<open>details.hostname: /p/\<close>, in this order;
  the minimum-match count is 1.
\<close>

theorem buildQuery_should:
  "Should (Bool (Query (fst (buildAuditSearch c)))) =
     (if hostmatch c = [] then []
      else [zero_queryCriteria\<lparr>QueryString :=
              [''query'' \<mapsto> ''hostname: /'' @ hostmatch c @ ''/'']\<rparr>,
            zero_queryCriteria\<lparr>QueryString :=
              [''query'' \<mapsto> ''details.dhost: /'' @ hostmatch c @ ''/'']\<rparr>,
            zero_queryCriteria\<lparr>QueryString :=
              [''query'' \<mapsto> ''details.hostname: /'' @ hostmatch c @ ''/'']\<rparr>]) \<and>
   MinShouldMatch (Bool (Query (fst (buildAuditSearch c)))) = 1 \<and>
   Should (Bool (Query (fst (buildSyslogSearch c)))) =
     (if hostmatch c = [] then []
      else [zero_queryCriteria\<lparr>QueryString :=
              [''query'' \<mapsto> ''hostname: /'' @ hostmatch c @ ''/'']\<rparr>,
            zero_queryCriteria\<lparr>QueryString :=
              [''query'' \<mapsto> ''details.dhost: /'' @ hostmatch c @ ''/'']\<rparr>,
            zero_queryCriteria\<lparr>QueryString :=
              [''query'' \<mapsto> ''details.hostname: /'' @ hostmatch c @ ''/'']\<rparr>]) \<and>
   MinShouldMatch (Bool (Query (fst (buildSyslogSearch c)))) = 1"
  by (simp add: buildAuditSearch_def buildSyslogSearch_def defaultSettings_zero addMatch_def
      append_Must_def)

text \<open>
  Claim C6: the must-list of the built query starts with the range clause on
  \<open>utctimestamp\<close> with the bounds \<open>gte\<close> and \<open>lte\<close> (both inclusive) at the start and the
  end date in RFC 3339; audit mode adds the one match clause \<open>_type = auditd\<close>, syslog mode
  the two match clauses \<open>_type = event\<close> and \<open>category = syslog\<close>. Neither builder fails.
\<close>

theorem buildQuery_must:
  "Must (Bool (Query (fst (buildAuditSearch c)))) =
     [zero_queryCriteria\<lparr>Range_q := [''utctimestamp'' \<mapsto>
        [''gte'' \<mapsto> Format_RFC3339 (startDate c),
         ''lte'' \<mapsto> Format_RFC3339 (endDate c)]]\<rparr>,
      zero_queryCriteria\<lparr>Match := [''_type'' \<mapsto> ''auditd'']\<rparr>] \<and>
   Must (Bool (Query (fst (buildSyslogSearch c)))) =
     [zero_queryCriteria\<lparr>Range_q := [''utctimestamp'' \<mapsto>
        [''gte'' \<mapsto> Format_RFC3339 (startDate c),
         ''lte'' \<mapsto> Format_RFC3339 (endDate c)]]\<rparr>,
      zero_queryCriteria\<lparr>Match := [''_type'' \<mapsto> ''event'']\<rparr>,
      zero_queryCriteria\<lparr>Match := [''category'' \<mapsto> ''syslog'']\<rparr>] \<and>
   snd (buildAuditSearch c) = None \<and> snd (buildSyslogSearch c) = None"
  by (simp add: buildAuditSearch_def buildSyslogSearch_def defaultSettings_zero addMatch_def
      append_Must_def)

lemma Format_RFC3339_epoch: "Format_RFC3339 0 = ''1970-01-01T00:00:00Z''"
  by code_simp

lemma Format_RFC3339_2025: "Format_RFC3339 1761955199123456789 = ''2025-10-31T23:59:59Z''"
  by code_simp

text \<open>The audit query for 1 January 1970, 00:00:00, to 31 October 2025, 23:59:59.\<close>

theorem buildQuery_must_witness:
  "Must (Bool (Query (fst (buildAuditSearch
      \<lparr>eshost = ''es'', startDate = 0, endDate = 1761955199123456789, hostmatch = [],
       results = []\<rparr>)))) =
     [zero_queryCriteria\<lparr>Range_q := [''utctimestamp'' \<mapsto>
        [''gte'' \<mapsto> ''1970-01-01T00:00:00Z'', ''lte'' \<mapsto> ''2025-10-31T23:59:59Z'']]\<rparr>,
      zero_queryCriteria\<lparr>Match := [''_type'' \<mapsto> ''auditd'']\<rparr>]"
  using buildQuery_must [of "\<lparr>eshost = ''es'', startDate = 0, endDate = 1761955199123456789,
      hostmatch = [], results = []\<rparr>"]
  by (simp add: Format_RFC3339_epoch Format_RFC3339_2025)

text \<open>
  Claim C9: the JSON form of every bool query has the member \<open>minimum_should_match\<close>,
  whatever its value and its lists. For every configuration the built query has
  \<open>MinShouldMatch = 1\<close>, and its JSON form has the member \<open>minimum_should_match\<close> with the
  value 1 under \<open>query.bool\<close>, also when the hostname pattern is empty and the member
  \<open>should\<close> is left out.
\<close>

theorem minimum_should_match_always:
  "json_member (marshal_boolQuery b) ''minimum_should_match'' =
     Some (JNumber (sint (MinShouldMatch b))) \<and>
   MinShouldMatch (Bool (Query (fst (buildAuditSearch c)))) = 1 \<and>
   json_path (marshal_queryContainer (fst (buildAuditSearch c)))
     [''query'', ''bool'', ''minimum_should_match''] = Some (JNumber 1) \<and>
   json_path (marshal_queryContainer (fst (buildAuditSearch c))) [''query'', ''bool'', ''should''] =
     (if hostmatch c = [] then None
      else Some (JArray (map marshal_queryCriteria
                   (Should (Bool (Query (fst (buildAuditSearch c)))))))) \<and>
   MinShouldMatch (Bool (Query (fst (buildSyslogSearch c)))) = 1 \<and>
   json_path (marshal_queryContainer (fst (buildSyslogSearch c)))
     [''query'', ''bool'', ''minimum_should_match''] = Some (JNumber 1) \<and>
   json_path (marshal_queryContainer (fst (buildSyslogSearch c))) [''query'', ''bool'', ''should''] =
     (if hostmatch c = [] then None
      else Some (JArray (map marshal_queryCriteria
                   (Should (Bool (Query (fst (buildSyslogSearch c))))))))"
  by (simp add: buildAuditSearch_def buildSyslogSearch_def defaultSettings_zero addMatch_def
      append_Must_def marshal_queryContainer_def marshal_boolQuery_def)

section \<open>Properties of the page loop\<close>

text \<open>
  The hits of a page are all appended, normalised and in order, exactly when every one of
  them decodes.
\<close>

lemma runQueryIndex_hits_ok:
  "(runQueryIndex_hits unmarshal c hits = (None, c')) =
   (\<exists>evs. map unmarshal hits = map Inr evs \<and> c' = c\<lparr>results := results c @ map normalize evs\<rparr>)"
proof (induction hits arbitrary: c)
  case Nil
  then show ?case by auto
next
  case (Cons x xs)
  show ?case
  proof (cases "unmarshal x")
    case (Inl e)
    then show ?thesis by (auto simp: map_eq_Cons_conv)
  next
    case (Inr ev)
    have "(\<exists>evs. map unmarshal (x # xs) = map Inr evs \<and> c' = c\<lparr>results := results c @ map normalize evs\<rparr>)
       = (\<exists>evs'. map unmarshal xs = map Inr evs' \<and> c' = c\<lparr>results := results c @ normalize ev # map normalize evs'\<rparr>)"
      using Inr 
      apply (auto simp: map_eq_Cons_conv Cons_eq_map_conv)
      done
    then show ?thesis using Inr Cons.IH[of "c\<lparr>results := results c @ [normalize ev]\<rparr>"] by simp
  qed
qed

lemma page_requests_Suc:
  "page_requests d qry i t (Suc n) =
     \<lparr>req_domain = d, req_index = i, req_doctype = t, req_query = qry\<rparr> #
     page_requests d (qry\<lparr>From := From qry + docsPerSearch\<rparr>) i t n"
proof -
  have "[0..<Suc n] = 0 # map Suc [0..<n]"
    by (simp add: upt_conv_Cons map_Suc_upt del: upt_Suc)
  then show ?thesis
    by (simp add: page_requests_def comp_def algebra_simps del: upt_Suc)
qed


lemma page_requests_0: "page_requests d qry i t 0 = []"
  by (simp add: page_requests_def)

text \<open>
  If the backend answers the successive requests with non-empty pages that decode and then
  with an empty page, a loop with more fuel than pages ends without error.
\<close>

lemma runQueryIndex_loop_complete:
  "length pages < fuel \<Longrightarrow> [] \<notin> set pages \<Longrightarrow>
   answers search (backend r) (page_requests (eshost (cfg r)) qry i t (Suc (length pages)))
     (pages @ [[]]) b' \<Longrightarrow>
   map unmarshal (concat pages) = map Inr evs \<Longrightarrow>
   runQueryIndex_loop fuel search unmarshal r qry i t =
     Some (None, r\<lparr>cfg := (cfg r)\<lparr>results := results (cfg r) @ map normalize evs\<rparr>,
                    backend := b',
                    requests := requests r @
                      page_requests (eshost (cfg r)) qry i t (Suc (length pages))\<rparr>)"
proof (induction pages arbitrary: fuel r qry evs)
  case Nil
  then obtain n where fuel: "fuel = Suc n" by (cases fuel) auto
  from Nil have "evs = []" by simp
  with Nil show ?case
    by (auto simp: fuel page_requests_Suc page_requests_0 split: prod.splits sum.splits)
next
  case (Cons p ps)
  then obtain n where fuel: "fuel = Suc n" and n: "length ps < n" by (cases fuel) auto
  let ?rq = "\<lparr>req_domain = eshost (cfg r), req_index = i, req_doctype = t, req_query = qry\<rparr>"
  let ?qry' = "qry\<lparr>From := From qry + docsPerSearch\<rparr>"
  from Cons.prems(3) obtain b1 where
    s: "search (backend r) ?rq = (Inr p, b1)" and
    a: "answers search b1 (page_requests (eshost (cfg r)) ?qry' i t (Suc (length ps)))
          (ps @ [[]]) b'"
    by (subst (asm) page_requests_Suc) (auto split: prod.splits sum.splits)
  from Cons.prems(2) have p: "p \<noteq> []" and ps: "[] \<notin> set ps" by auto
  from Cons.prems(4) obtain evs1 evs2 where evs: "evs = evs1 @ evs2" and
    e1: "map unmarshal p = map Inr evs1" and e2: "map unmarshal (concat ps) = map Inr evs2"
    by (auto simp: append_eq_map_conv)
  let ?r1 = "r\<lparr>backend := b1, requests := requests r @ [?rq]\<rparr>"
  let ?c1 = "(cfg r)\<lparr>results := results (cfg r) @ map normalize evs1\<rparr>"
  have h: "runQueryIndex_hits unmarshal (cfg ?r1) p = (None, ?c1)"
    using e1 by (auto simp: runQueryIndex_hits_ok)
  have "runQueryIndex_loop n search unmarshal (?r1\<lparr>cfg := ?c1\<rparr>) ?qry' i t =
     Some (None, (?r1\<lparr>cfg := ?c1\<rparr>)\<lparr>cfg := (cfg (?r1\<lparr>cfg := ?c1\<rparr>))\<lparr>results :=
                     results (cfg (?r1\<lparr>cfg := ?c1\<rparr>)) @ map normalize evs2\<rparr>,
                    backend := b',
                    requests := requests (?r1\<lparr>cfg := ?c1\<rparr>) @
                      page_requests (eshost (cfg (?r1\<lparr>cfg := ?c1\<rparr>))) ?qry' i t (Suc (length ps))\<rparr>)"
    by (rule Cons.IH[OF n ps _ e2]) (use a in simp)
  then show ?case
    using s p h by (simp add: fuel evs page_requests_Suc[of _ qry])
qed


text \<open>Conversely, a loop that ends without error has seen such pages.\<close>

lemma runQueryIndex_loop_sound:
  "runQueryIndex_loop fuel search unmarshal r qry i t = Some (None, r') \<Longrightarrow>
   \<exists>pages evs b'. length pages < fuel \<and> [] \<notin> set pages \<and>
     answers search (backend r) (page_requests (eshost (cfg r)) qry i t (Suc (length pages)))
       (pages @ [[]]) b' \<and>
     map unmarshal (concat pages) = map Inr evs \<and>
     r' = r\<lparr>cfg := (cfg r)\<lparr>results := results (cfg r) @ map normalize evs\<rparr>,
            backend := b',
            requests := requests r @
              page_requests (eshost (cfg r)) qry i t (Suc (length pages))\<rparr>"
proof (induction fuel arbitrary: r qry)
  case 0
  then show ?case by simp
next
  case (Suc n)
  let ?rq = "\<lparr>req_domain = eshost (cfg r), req_index = i, req_doctype = t, req_query = qry\<rparr>"
  let ?qry' = "qry\<lparr>From := From qry + docsPerSearch\<rparr>"
  obtain res b1 where s: "search (backend r) ?rq = (res, b1)" by (cases "search (backend r) ?rq")
  let ?r1 = "r\<lparr>backend := b1, requests := requests r @ [?rq]\<rparr>"
  from Suc.prems s obtain hits where res: "res = Inr hits"
    by (cases res) (auto simp: Let_def)
  show ?case
  proof (cases "hits = []")
    case True
    with Suc.prems s res have r': "r' = ?r1" by (simp add: Let_def)
    have "answers search (backend r) (page_requests (eshost (cfg r)) qry i t (Suc (length ([]::'b list list))))
       ([] @ [[]]) b1"
      using s res True by (simp add: page_requests_Suc page_requests_0)
    moreover have "r' = r\<lparr>cfg := (cfg r)\<lparr>results := results (cfg r) @ map normalize []\<rparr>,
            backend := b1,
            requests := requests r @
              page_requests (eshost (cfg r)) qry i t (Suc (length ([]::'b list list)))\<rparr>"
      by (simp add: r' page_requests_Suc page_requests_0)
    ultimately show ?thesis
      by (intro exI[of _ "[]"] exI[of _ "[]::event list"] exI[of _ b1]) simp
  next
    case False
    obtain e c1 where h: "runQueryIndex_hits unmarshal (cfg ?r1) hits = (e, c1)"
      by (cases "runQueryIndex_hits unmarshal (cfg ?r1) hits")
    from Suc.prems s res False h have e: "e = None"
      by (cases e) (auto simp: Let_def)
    from Suc.prems s res False h e have
      l: "runQueryIndex_loop n search unmarshal (?r1\<lparr>cfg := c1\<rparr>) ?qry' i t = Some (None, r')"
      by (simp add: Let_def)
    from h e obtain evs1 where e1: "map unmarshal hits = map Inr evs1" and
      c1: "c1 = (cfg r)\<lparr>results := results (cfg r) @ map normalize evs1\<rparr>"
      by (auto simp: runQueryIndex_hits_ok)
    from Suc.IH[OF l] obtain pages evs2 b' where
      n: "length pages < n" and ne: "[] \<notin> set pages" and
      a: "answers search b1 (page_requests (eshost (cfg r)) ?qry' i t (Suc (length pages)))
            (pages @ [[]]) b'" and
      e2: "map unmarshal (concat pages) = map Inr evs2" and
      r': "r' = (?r1\<lparr>cfg := c1\<rparr>)\<lparr>cfg := c1\<lparr>results := results c1 @ map normalize evs2\<rparr>,
            backend := b',
            requests := (requests r @ [?rq]) @
              page_requests (eshost (cfg r)) ?qry' i t (Suc (length pages))\<rparr>"
      by (auto simp: c1)
    have "answers search (backend r)
        (page_requests (eshost (cfg r)) qry i t (Suc (length (hits # pages))))
        ((hits # pages) @ [[]]) b'"
      using s res a by (simp add: page_requests_Suc[of _ qry])
    moreover have "map unmarshal (concat (hits # pages)) = map Inr (evs1 @ evs2)"
      using e1 e2 by simp
    moreover have "r' = r\<lparr>cfg := (cfg r)\<lparr>results := results (cfg r) @ map normalize (evs1 @ evs2)\<rparr>,
            backend := b',
            requests := requests r @
              page_requests (eshost (cfg r)) qry i t (Suc (length (hits # pages)))\<rparr>"
      by (simp add: r' c1 page_requests_Suc[of _ qry])
    moreover have "length (hits # pages) < Suc n" "[] \<notin> set (hits # pages)"
      using n ne False by auto
    ultimately show ?thesis by blast
  qed
qed


text \<open>
  Claim C1: for every index, \<open>runQueryIndex\<close> returns without error exactly when the
  backend answers the requests at the offsets 0, 100, 200, ... with some number of
  non-empty pages of documents that decode, whatever their sizes, and then with a page of
  zero hits. It has then sent exactly these requests, one more than there are non-empty
  pages, and has appended the normalised events of all pages, in order, to the results.
\<close>

theorem runQueryIndex_pagination:
  "(runQueryIndex fuel search unmarshal r qry index doctype = Some (None, r')) =
   (\<exists>pages evs b'. length pages < fuel \<and> [] \<notin> set pages \<and>
     answers search (backend r)
       (page_requests (eshost (cfg r)) (qry\<lparr>From := 0\<rparr>) index doctype (Suc (length pages)))
       (pages @ [[]]) b' \<and>
     map unmarshal (concat pages) = map Inr evs \<and>
     r' = r\<lparr>cfg := (cfg r)\<lparr>results := results (cfg r) @ map normalize evs\<rparr>,
            backend := b',
            requests := requests r @
              page_requests (eshost (cfg r)) (qry\<lparr>From := 0\<rparr>) index doctype
                (Suc (length pages))\<rparr>) \<and>
   map (\<lambda>rq. From (req_query rq)) (page_requests d (qry\<lparr>From := 0\<rparr>) index doctype n) =
     map (\<lambda>k. of_nat k * 100) [0..<n]"
proof -
  have "map (\<lambda>rq. From (req_query rq)) (page_requests d (qry\<lparr>From := 0\<rparr>) index doctype n) =
     map (\<lambda>k. of_nat k * 100) [0..<n]"
    by (simp add: page_requests_def docsPerSearch_def comp_def)
  moreover have "(runQueryIndex fuel search unmarshal r qry index doctype = Some (None, r')) =
   (\<exists>pages evs b'. length pages < fuel \<and> [] \<notin> set pages \<and>
     answers search (backend r)
       (page_requests (eshost (cfg r)) (qry\<lparr>From := 0\<rparr>) index doctype (Suc (length pages)))
       (pages @ [[]]) b' \<and>
     map unmarshal (concat pages) = map Inr evs \<and>
     r' = r\<lparr>cfg := (cfg r)\<lparr>results := results (cfg r) @ map normalize evs\<rparr>,
            backend := b',
            requests := requests r @
              page_requests (eshost (cfg r)) (qry\<lparr>From := 0\<rparr>) index doctype
                (Suc (length pages))\<rparr>)"
    unfolding runQueryIndex_def
    by (rule iffI) (erule runQueryIndex_loop_sound, auto intro: runQueryIndex_loop_complete)
  ultimately show ?thesis by simp
qed

text \<open>
  A backend that returns pages of 100, 100, 37 and 0 documents: four requests, at the
  offsets 0, 100, 200 and 300, and 237 events.
\<close>

theorem runQueryIndex_pagination_witness:
  "map_option (\<lambda>(e, r'). (e, map (\<lambda>rq. From (req_query rq)) (requests r'),
       length (results (cfg r')), backend r'))
     (runQueryIndex 4 stub_pages Inr
        \<lparr>cfg = zero_config\<lparr>eshost := ''es''\<rparr>,
         backend = [replicate 100 zero_event, replicate 100 zero_event,
                    replicate 37 zero_event, []],
         requests = []\<rparr>
        zero_queryContainer ''events-20151001'' ''auditd'') =
   Some (None, [0, 100, 200, 300], 237, [])"
proof -
  let ?r = "\<lparr>cfg = zero_config\<lparr>eshost := ''es''\<rparr>,
         backend = [replicate 100 zero_event, replicate 100 zero_event,
                    replicate 37 zero_event, []],
         requests = []\<rparr>"
  let ?pages = "[replicate 100 zero_event, replicate 100 zero_event, replicate 37 zero_event]"
  have a: "answers stub_pages (backend ?r)
       (page_requests (eshost (cfg ?r)) (zero_queryContainer\<lparr>From := 0\<rparr>) ''events-20151001''
          ''auditd'' (Suc (length ?pages)))
       (?pages @ [[]]) []"
    by (simp add: page_requests_Suc page_requests_0 stub_pages_def)
  have ne: "[] \<notin> set ?pages" by simp
  have "runQueryIndex 4 stub_pages Inr ?r zero_queryContainer ''events-20151001'' ''auditd'' =
    Some (None, ?r\<lparr>cfg := (cfg ?r)\<lparr>results := results (cfg ?r) @ map normalize (concat ?pages)\<rparr>,
            backend := [],
            requests := requests ?r @
              page_requests (eshost (cfg ?r)) (zero_queryContainer\<lparr>From := 0\<rparr>)
                ''events-20151001'' ''auditd'' (Suc (length ?pages))\<rparr>)"
    using a ne
    by (subst runQueryIndex_pagination [THEN conjunct1])
       (intro exI[of _ ?pages] exI[of _ "concat ?pages"] exI[of _ "[]"] conjI, simp_all)
  then show ?thesis
    by (simp add: page_requests_Suc page_requests_0 docsPerSearch_def zero_config_def)
qed

section \<open>Properties of the audit lines\<close>

text \<open>
  Claim C4 says that the segment \<open>proc:\<close> is printed exactly when the process name is not
  empty. The code tests \<open>Details.DProc\<close> and prints \<open>Details.ProcessName\<close>: an event with
  the category \<open>execve\<close>, the user \<open>root\<close>, the process name \<open>bash\<close> and an empty \<open>dproc\<close> is
  left as it is by \<open>normalize\<close>, and its descriptor has no segment \<open>proc:\<close>.
\<close>

theorem auditResults_proc_omitted:
  "normalize (zero_event\<lparr>Category := ''execve'', Details :=
        zero_details\<lparr>Details_ProcessName := ''bash'', Details_User := ''root''\<rparr>\<rparr>) =
     (zero_event\<lparr>Category := ''execve'', Details :=
        zero_details\<lparr>Details_ProcessName := ''bash'', Details_User := ''root''\<rparr>\<rparr>) \<and>
   Details_ProcessName (Details (normalize (zero_event\<lparr>Category := ''execve'', Details :=
        zero_details\<lparr>Details_ProcessName := ''bash'', Details_User := ''root''\<rparr>\<rparr>))) = ''bash'' \<and>
   auditResults_evstr quote (normalize (zero_event\<lparr>Category := ''execve'', Details :=
        zero_details\<lparr>Details_ProcessName := ''bash'', Details_User := ''root''\<rparr>\<rparr>)) = ''[execve] (none/root)''"
  by (simp add: zero_event_def zero_details_def normalize_literal auditResults_evstr_def
      Trim_def TrimLeft_def TrimRight_def)

text \<open>
  The example of the claim holds: the command \<open>ls -la\<close> run by \<open>root\<close> with no original
  user gives \<open>(none/root)\<close> and the segment \<open>command:\<close> with the quoted command.
\<close>

lemma auditResults_execve_example:
  "auditResults_evstr quote (normalize (zero_event\<lparr>Details :=
      zero_details\<lparr>Details_Name := ''Unix Exec'', Details_Command := ''ls -la'',
        Details_User := ''root''\<rparr>\<rparr>)) =
   ''[execve] (none/root) command:'' @ quote ''ls -la''"
  by (simp add: zero_event_def zero_details_def normalize_literal auditResults_evstr_def)

section \<open>Properties of main\<close>






section \<open>Properties of the run over the indices\<close>

text \<open>
  Whatever its result, a run of one index sends at least one request, and all the requests
  it sends name that index.
\<close>

lemma runQueryIndex_loop_requests:
  "runQueryIndex_loop fuel search unmarshal r qry i t = Some (res, r') \<Longrightarrow>
   \<exists>rqs. rqs \<noteq> [] \<and> requests r' = requests r @ rqs \<and> map req_index rqs = replicate (length rqs) i"
proof (induction fuel arbitrary: r qry)
  case 0
  then show ?case by simp
next
  case (Suc n)
  let ?rq = "\<lparr>req_domain = eshost (cfg r), req_index = i, req_doctype = t, req_query = qry\<rparr>"
  obtain rs b1 where s: "search (backend r) ?rq = (rs, b1)" by (cases "search (backend r) ?rq")
  let ?r1 = "r\<lparr>backend := b1, requests := requests r @ [?rq]\<rparr>"
  have one: "\<exists>rqs. rqs \<noteq> [] \<and> requests (?r1\<lparr>cfg := c\<rparr>) = requests r @ rqs \<and>
     map req_index rqs = replicate (length rqs) i" for c
    by (rule exI[of _ "[?rq]"]) simp
  show ?case
  proof (cases rs)
    case (Inl err)
    with Suc.prems s have "r' = ?r1" by (simp add: Let_def)
    then show ?thesis using one[of "cfg r"] by simp
  next
    case (Inr hits)
    show ?thesis
    proof (cases "hits = []")
      case True
      with Suc.prems s Inr have "r' = ?r1" by (simp add: Let_def)
      then show ?thesis using one[of "cfg r"] by simp
    next
      case False
      obtain e c1 where h: "runQueryIndex_hits unmarshal (cfg ?r1) hits = (e, c1)"
        by (cases "runQueryIndex_hits unmarshal (cfg ?r1) hits")
      show ?thesis
      proof (cases e)
        case (Some err)
        with Suc.prems s Inr False h have "r' = ?r1\<lparr>cfg := c1\<rparr>" by (simp add: Let_def)
        then show ?thesis using one[of c1] by simp
      next
        case None
        with Suc.prems s Inr False h have
          "runQueryIndex_loop n search unmarshal (?r1\<lparr>cfg := c1\<rparr>)
             (qry\<lparr>From := From qry + docsPerSearch\<rparr>) i t = Some (res, r')"
          by (simp add: Let_def)
        from Suc.IH[OF this] obtain rqs where
          "requests r' = (requests r @ [?rq]) @ rqs" "map req_index rqs = replicate (length rqs) i"
          by auto
        then show ?thesis
          by (intro exI[of _ "?rq # rqs"]) simp
      qed
    qed
  qed
qed

text \<open>After a prefix of indices that ends without error, the run goes on from its state.\<close>

lemma runQuery_run_append:
  "runQuery_run fuel search unmarshal r qry pre t = Some (None, r1) \<Longrightarrow>
   runQuery_run fuel search unmarshal r qry (pre @ xs) t =
     runQuery_run fuel search unmarshal r1 qry xs t"
  by (induction pre arbitrary: r) (auto split: option.splits prod.splits)

text \<open>
  The requests of a run without error name the indices in their order, each one a
  positive number of times.
\<close>

lemma runQuery_run_requests:
  "runQuery_run fuel search unmarshal r qry pre t = Some (None, r1) \<Longrightarrow>
   \<exists>ks rqs. length ks = length pre \<and> 0 \<notin> set ks \<and> requests r1 = requests r @ rqs \<and>
     map req_index rqs = concat (map2 replicate ks pre)"
proof (induction pre arbitrary: r)
  case Nil
  then show ?case by simp
next
  case (Cons x xs)
  then obtain r0 where
    x: "runQueryIndex fuel search unmarshal r qry x t = Some (None, r0)" and
    xs: "runQuery_run fuel search unmarshal r0 qry xs t = Some (None, r1)"
    by (auto split: option.splits prod.splits)
  from x obtain rqs0 where r0: "rqs0 \<noteq> []" "requests r0 = requests r @ rqs0"
    "map req_index rqs0 = replicate (length rqs0) x"
    unfolding runQueryIndex_def by (blast dest: runQueryIndex_loop_requests)
  from Cons.IH[OF xs] obtain ks rqs where ks: "length ks = length xs" "0 \<notin> set ks"
    "requests r1 = requests r0 @ rqs" "map req_index rqs = concat (map2 replicate ks xs)"
    by blast
  show ?case
    using r0 ks
    by (intro exI[of _ "length rqs0 # ks"] exI[of _ "rqs0 @ rqs"]) simp
qed

text \<open>
  The run of a list of indices returns no error exactly when \<open>runQueryIndex\<close> passes on
  every index in turn, and it returns an error exactly when the indices before some index
  pass and \<open>runQueryIndex\<close> returns that error on this index.
\<close>

lemma runQuery_run_pass:
  "(runQuery_run fuel search unmarshal r qry indices doctype = Some (None, r1)) =
   indices_pass fuel search unmarshal r qry indices doctype r1"
  by (induction indices arbitrary: r) (auto split: option.splits prod.splits)

lemma runQuery_run_error:
  "(runQuery_run fuel search unmarshal r qry indices doctype = Some (Some err, r2)) =
   (\<exists>pre x post r1. indices = pre @ x # post \<and>
      indices_pass fuel search unmarshal r qry pre doctype r1 \<and>
      runQueryIndex fuel search unmarshal r1 qry x doctype = Some (Some err, r2))"
proof
  show "runQuery_run fuel search unmarshal r qry indices doctype = Some (Some err, r2) \<Longrightarrow>
    \<exists>pre x post r1. indices = pre @ x # post \<and>
      indices_pass fuel search unmarshal r qry pre doctype r1 \<and>
      runQueryIndex fuel search unmarshal r1 qry x doctype = Some (Some err, r2)"
  proof (induction indices arbitrary: r)
    case Nil
    then show ?case by simp
  next
    case (Cons y ys)
    then obtain e r' where y: "runQueryIndex fuel search unmarshal r qry y doctype = Some (e, r')"
      by (cases "runQueryIndex fuel search unmarshal r qry y doctype") auto
    show ?case
    proof (cases e)
      case (Some err')
      with Cons.prems y have "err' = err" "r' = r2" by simp_all
      with y Some have "y # ys = [] @ y # ys \<and>
          indices_pass fuel search unmarshal r qry [] doctype r \<and>
          runQueryIndex fuel search unmarshal r qry y doctype = Some (Some err, r2)"
        by simp
      then show ?thesis by blast
    next
      case None
      with Cons.prems y have
        "runQuery_run fuel search unmarshal r' qry ys doctype = Some (Some err, r2)" by simp
      from Cons.IH[OF this] obtain pre x post r1 where p: "ys = pre @ x # post"
        "indices_pass fuel search unmarshal r' qry pre doctype r1"
        "runQueryIndex fuel search unmarshal r1 qry x doctype = Some (Some err, r2)"
        by blast
      with y None have "y # ys = (y # pre) @ x # post \<and>
          indices_pass fuel search unmarshal r qry (y # pre) doctype r1 \<and>
          runQueryIndex fuel search unmarshal r1 qry x doctype = Some (Some err, r2)"
        by simp
      then show ?thesis by blast
    qed
  qed
next
  assume "\<exists>pre x post r1. indices = pre @ x # post \<and>
      indices_pass fuel search unmarshal r qry pre doctype r1 \<and>
      runQueryIndex fuel search unmarshal r1 qry x doctype = Some (Some err, r2)"
  then obtain pre x post r1 where p: "indices = pre @ x # post"
    "runQuery_run fuel search unmarshal r qry pre doctype = Some (None, r1)"
    "runQueryIndex fuel search unmarshal r1 qry x doctype = Some (Some err, r2)"
    by (auto simp: runQuery_run_pass)
  then show "runQuery_run fuel search unmarshal r qry indices doctype = Some (Some err, r2)"
    by (simp add: runQuery_run_append)
qed

text \<open>
  Claim C8: for every list of indices, if \<open>runQueryIndex\<close> passes on the indices before
  \<open>x\<close>, one after the other, and returns an error on \<open>x\<close>, then the run of the whole list
  returns this error and the state in which the run of \<open>x\<close> ended, so nothing is requested
  of the indices after \<open>x\<close>; the requests sent name the indices up to \<open>x\<close> in their order,
  each a positive number of times. The same holds of \<open>runQuery\<close> on the indices it
  enumerates. A run returns an error in no other way.
\<close>

theorem runQuery_aborts:
  assumes "indices_pass fuel search unmarshal r qry pre doctype r1"
    and "runQueryIndex fuel search unmarshal r1 qry x doctype = Some (Some err, r2)"
  shows "runQuery_run fuel search unmarshal r qry (pre @ x # post) doctype = Some (Some err, r2) \<and>
    runQuery_run fuel search unmarshal r qry pre doctype = Some (None, r1) \<and>
    (\<exists>ks rqs. length ks = length (pre @ [x]) \<and> 0 \<notin> set ks \<and>
       requests r2 = requests r @ rqs \<and>
       map req_index rqs = concat (map2 replicate ks (pre @ [x]))) \<and>
    (runQuery_indices (endDate (cfg r)) (startDate (cfg r)) [] = pre @ x # post \<longrightarrow>
       runQuery fuel search unmarshal r qry doctype = Some (Some err, r2)) \<and>
    (runQuery_run fuel search unmarshal r qry indices doctype = Some (Some err', r')) =
       (\<exists>pre' x' post' r1'. indices = pre' @ x' # post' \<and>
          indices_pass fuel search unmarshal r qry pre' doctype r1' \<and>
          runQueryIndex fuel search unmarshal r1' qry x' doctype = Some (Some err', r'))"
proof -
  have pre: "runQuery_run fuel search unmarshal r qry pre doctype = Some (None, r1)"
    using assms(1) by (simp add: runQuery_run_pass)
  have run: "runQuery_run fuel search unmarshal r qry (pre @ x # post) doctype = Some (Some err, r2)"
    using pre assms(2) by (simp add: runQuery_run_append)
  from assms(2) obtain rqs1 where r2: "rqs1 \<noteq> []" "requests r2 = requests r1 @ rqs1"
    "map req_index rqs1 = replicate (length rqs1) x"
    unfolding runQueryIndex_def by (blast dest: runQueryIndex_loop_requests)
  from runQuery_run_requests[OF pre] obtain ks rqs where ks: "length ks = length pre"
    "0 \<notin> set ks" "requests r1 = requests r @ rqs"
    "map req_index rqs = concat (map2 replicate ks pre)"
    by blast
  have tr: "\<exists>ks rqs. length ks = length (pre @ [x]) \<and> 0 \<notin> set ks \<and>
       requests r2 = requests r @ rqs \<and>
       map req_index rqs = concat (map2 replicate ks (pre @ [x]))"
    using r2 ks
    by (intro exI[of _ "ks @ [length rqs1]"] exI[of _ "rqs @ rqs1"]) simp
  have only: "(runQuery_run fuel search unmarshal r qry indices doctype = Some (Some err', r')) =
       (\<exists>pre' x' post' r1'. indices = pre' @ x' # post' \<and>
          indices_pass fuel search unmarshal r qry pre' doctype r1' \<and>
          runQueryIndex fuel search unmarshal r1' qry x' doctype = Some (Some err', r'))"
    by (rule runQuery_run_error)
  have rq: "runQuery_indices (endDate (cfg r)) (startDate (cfg r)) [] = pre @ x # post \<longrightarrow>
       runQuery fuel search unmarshal r qry doctype = Some (Some err, r2)"
    using run by (simp add: runQuery_def)
  from run pre tr rq only show ?thesis by blast
qed

text \<open>
  Four days of October 2015 and a backend that fails on the third index, after two indices
  that pass: requests go to the first three indices in their order, none to the fourth,
  and the error comes back.
\<close>

lemma runQuery_indices_october:
  "runQuery_indices 1443830400000000000 1443657600000000000 [] =
     [''events-20151001'', ''events-20151002'', ''events-20151003'']"
  by code_simp

lemma runQuery_indices_october4:
  "runQuery_indices 1443916800000000000 1443657600000000000 [] =
     [''events-20151001'', ''events-20151002'', ''events-20151003'', ''events-20151004'']"
  by code_simp

theorem runQuery_aborts_witness:
  "map_option (\<lambda>(e, r'). (e, map req_index (requests r')))
     (runQuery 1 (stub_failing ''events-20151003'' (Error ''boom'')) (\<lambda>x::unit. Inr zero_event)
        \<lparr>cfg = \<lparr>eshost = ''es'', startDate = 1443657600000000000,
                 endDate = 1443916800000000000, hostmatch = [], results = []\<rparr>,
         backend = (), requests = []\<rparr>
        zero_queryContainer ''auditd'') =
   Some (Some (Error ''boom''), [''events-20151001'', ''events-20151002'', ''events-20151003''])"
proof -
  let ?r = "\<lparr>cfg = \<lparr>eshost = ''es'', startDate = 1443657600000000000,
                 endDate = 1443916800000000000, hostmatch = [], results = []\<rparr>,
         backend = (), requests = []\<rparr>"
  let ?rq = "\<lambda>i. \<lparr>req_domain = ''es'', req_index = i, req_doctype = ''auditd'',
     req_query = zero_queryContainer\<lparr>From := 0\<rparr>\<rparr>"
  let ?s = "stub_failing ''events-20151003'' (Error ''boom'') :: (unit, unit) search"
  let ?u = "\<lambda>x::unit. Inr zero_event"
  have 1: "indices_pass 1 ?s ?u ?r zero_queryContainer [''events-20151001'', ''events-20151002'']
      ''auditd'' (?r\<lparr>requests := [?rq ''events-20151001'', ?rq ''events-20151002'']\<rparr>)"
    by (simp add: runQueryIndex_def stub_failing_def)
  have 2: "runQueryIndex 1 ?s ?u
      (?r\<lparr>requests := [?rq ''events-20151001'', ?rq ''events-20151002'']\<rparr>)
      zero_queryContainer ''events-20151003'' ''auditd'' =
     Some (Some (Error ''boom''),
       ?r\<lparr>requests := [?rq ''events-20151001'', ?rq ''events-20151002'',
                        ?rq ''events-20151003'']\<rparr>)"
    by (simp add: runQueryIndex_def stub_failing_def)
  from runQuery_aborts[OF 1 2, of "[''events-20151004'']"] show ?thesis
    by (simp add: runQuery_indices_october4)
qed

section \<open>Properties of the calendar and of the index enumeration\<close>

text \<open>
  A day number is its 400-, 100-, 4- and 1-year cycles and the day of the year: the
  counts of cycles stay in their ranges, so the year and the day of the year determine the
  day number.
\<close>

lemma absDate_parts:
  assumes "absDate d = (y, yd)"
  shows "\<exists>a b c e. 0 \<le> b \<and> b \<le> 3 \<and> 0 \<le> c \<and> c \<le> 24 \<and> 0 \<le> e \<and> e \<le> 3 \<and>
           y = 400 * a + 100 * b + 4 * c + e + 1 \<and>
           d = 146097 * a + 36524 * b + 1461 * c + 365 * e + yd \<and> 0 \<le> yd \<and> yd \<le> 365"
proof -
  define a where "a = d div 146097"
  define d1 where "d1 = d - 146097 * a"
  define m100 where "m100 = d1 div 36524"
  define b where "b = m100 - m100 div 4"
  define d2 where "d2 = d1 - 36524 * b"
  define c where "c = d2 div 1461"
  define d3 where "d3 = d2 - 1461 * c"
  define m1 where "m1 = d3 div 365"
  define e where "e = m1 - m1 div 4"
  define d4 where "d4 = d3 - 365 * e"
  have res: "absDate d = (400 * a + 100 * b + 4 * c + e + 1, d4)"
    by (simp only: absDate_def Let_def a_def d1_def m100_def b_def d2_def c_def d3_def m1_def
        e_def d4_def)
  have d1m: "d1 = d mod 146097" unfolding d1_def a_def by (simp add: minus_mult_div_eq_mod)
  have d1: "0 \<le> d1" "d1 \<le> 146096" unfolding d1m by simp_all
  have m100: "0 \<le> m100" "m100 \<le> 4"
  proof -
    show "0 \<le> m100" unfolding m100_def using d1 by (simp add: pos_imp_zdiv_nonneg_iff)
    have "d1 div 36524 \<le> 146096 div 36524" by (rule zdiv_mono1) (use d1 in auto)
    then show "m100 \<le> 4" unfolding m100_def by simp
  qed
  define r1 where "r1 = d1 mod 36524"
  have r1: "d1 = 36524 * m100 + r1" "0 \<le> r1" "r1 < 36524"
    unfolding m100_def r1_def by simp_all
  from m100 consider "m100 = 0" | "m100 = 1" | "m100 = 2" | "m100 = 3" | "m100 = 4" by linarith
  then have bd2: "0 \<le> b \<and> b \<le> 3 \<and> 0 \<le> d2 \<and> d2 \<le> 36524"
    using r1 d1 unfolding b_def d2_def by cases auto
  have c: "0 \<le> c" "c \<le> 24"
  proof -
    show "0 \<le> c" unfolding c_def using bd2 by (simp add: pos_imp_zdiv_nonneg_iff)
    have "d2 div 1461 \<le> 36524 div 1461" by (rule zdiv_mono1) (use bd2 in auto)
    then show "c \<le> 24" unfolding c_def by simp
  qed
  have d3m: "d3 = d2 mod 1461" unfolding d3_def c_def by (simp add: minus_mult_div_eq_mod)
  have d3: "0 \<le> d3" "d3 \<le> 1460" unfolding d3m by simp_all
  have m1: "0 \<le> m1" "m1 \<le> 4"
  proof -
    show "0 \<le> m1" unfolding m1_def using d3 by (simp add: pos_imp_zdiv_nonneg_iff)
    have "d3 div 365 \<le> 1460 div 365" by (rule zdiv_mono1) (use d3 in auto)
    then show "m1 \<le> 4" unfolding m1_def by simp
  qed
  define r3 where "r3 = d3 mod 365"
  have r3: "d3 = 365 * m1 + r3" "0 \<le> r3" "r3 < 365"
    unfolding m1_def r3_def by simp_all
  from m1 consider "m1 = 0" | "m1 = 1" | "m1 = 2" | "m1 = 3" | "m1 = 4" by linarith
  then have ed4: "0 \<le> e \<and> e \<le> 3 \<and> 0 \<le> d4 \<and> d4 \<le> 365"
    using r3 d3 unfolding e_def d4_def by cases auto
  have "d = 146097 * a + 36524 * b + 1461 * c + 365 * e + d4"
    unfolding d4_def d3_def d2_def d1_def by simp
  with res assms bd2 c ed4 show ?thesis by auto
qed

lemma absDate_inj:
  assumes "absDate d = absDate d'"
  shows "d = d'"
proof -
  obtain y yd where 1: "absDate d = (y, yd)" by (cases "absDate d")
  with assms have 2: "absDate d' = (y, yd)" by simp
  from absDate_parts[OF 1] obtain a b c e where p:
    "0 \<le> b" "b \<le> 3" "0 \<le> c" "c \<le> 24" "0 \<le> e" "e \<le> 3"
    "y = 400 * a + 100 * b + 4 * c + e + 1"
    "d = 146097 * a + 36524 * b + 1461 * c + 365 * e + yd" by blast
  from absDate_parts[OF 2] obtain a' b' c' e' where p':
    "0 \<le> b'" "b' \<le> 3" "0 \<le> c'" "c' \<le> 24" "0 \<le> e'" "e' \<le> 3"
    "y = 400 * a' + 100 * b' + 4 * c' + e' + 1"
    "d' = 146097 * a' + 36524 * b' + 1461 * c' + 365 * e' + yd" by blast
  from p p' have "a = a'" by linarith
  moreover from this p p' have "b = b'" by linarith
  moreover from calculation p p' have "c = c'" by linarith
  moreover from calculation p p' have "e = e'" by linarith
  ultimately show ?thesis using p p' by simp
qed

text \<open>
  The day of the year is the table entry of the month plus the day of the month, with
  one more day after February in a leap year; months and days of the month are in range.
\<close>

lemma monthDay_parts:
  assumes "0 \<le> yd" "yd \<le> 365" "monthDay l yd = (m, dd)"
  shows "1 \<le> m \<and> m \<le> 13 \<and> 1 \<le> dd \<and> dd \<le> 31 \<and>
         yd = daysBefore ! nat (m - 1) + dd - 1 + (if l \<and> m > 2 then 1 else 0)"
proof (cases "l \<and> yd = 59")
  case True
  with assms show ?thesis by (simp add: monthDay_def daysBefore_def)
next
  case False
  define day where "day = (if l \<and> yd > 59 then yd - 1 else yd)"
  define k where "k = day div 31"
  define r where "r = day mod 31"
  have day: "day = 31 * k + r" "0 \<le> r" "r < 31"
    unfolding k_def r_def by simp_all
  have dayb: "0 \<le> day" "day \<le> 365" using assms unfolding day_def by auto
  have kb: "0 \<le> k" "k \<le> 11"
  proof -
    show "0 \<le> k" unfolding k_def using dayb by (simp add: pos_imp_zdiv_nonneg_iff)
    have "day div 31 \<le> 365 div 31" by (rule zdiv_mono1) (use dayb in auto)
    then show "k \<le> 11" unfolding k_def by simp
  qed
  have md: "monthDay l yd =
      (let end = daysBefore ! nat (k + 1);
           (month', begin) = (if day \<ge> end then (k + 1, end) else (k, daysBefore ! nat k))
       in (month' + 1, day - begin + 1))"
    using False by (auto simp: monthDay_def Let_def day_def k_def)
  have eq: "(let end = daysBefore ! nat (k + 1);
           (month', begin) = (if day \<ge> end then (k + 1, end) else (k, daysBefore ! nat k))
       in (month' + 1, day - begin + 1)) = (m, dd)"
    using assms(3) md by simp
  have ld: "l \<Longrightarrow> day < 59 \<Longrightarrow> yd = day" "l \<Longrightarrow> day \<ge> 59 \<Longrightarrow> yd = day + 1" "\<not> l \<Longrightarrow> yd = day"
    using False unfolding day_def by (auto split: if_splits)
  from kb consider "k = 0" | "k = 1" | "k = 2" | "k = 3" | "k = 4" | "k = 5" | "k = 6" |
    "k = 7" | "k = 8" | "k = 9" | "k = 10" | "k = 11" by atomize_elim presburger
  then show ?thesis
  proof cases
    case 1 with eq day ld show ?thesis
      by (cases l) (auto simp: daysBefore_def Let_def split: if_splits)
  next
    case 2 with eq day ld show ?thesis
      by (cases l) (auto simp: daysBefore_def Let_def split: if_splits)
  next
    case 3 with eq day ld show ?thesis
      by (cases l) (auto simp: daysBefore_def Let_def split: if_splits)
  next
    case 4 with eq day ld show ?thesis
      by (cases l) (auto simp: daysBefore_def Let_def split: if_splits)
  next
    case 5 with eq day ld show ?thesis
      by (cases l) (auto simp: daysBefore_def Let_def split: if_splits)
  next
    case 6 with eq day ld show ?thesis
      by (cases l) (auto simp: daysBefore_def Let_def split: if_splits)
  next
    case 7 with eq day ld show ?thesis
      by (cases l) (auto simp: daysBefore_def Let_def split: if_splits)
  next
    case 8 with eq day ld show ?thesis
      by (cases l) (auto simp: daysBefore_def Let_def split: if_splits)
  next
    case 9 with eq day ld show ?thesis
      by (cases l) (auto simp: daysBefore_def Let_def split: if_splits)
  next
    case 10 with eq day ld show ?thesis
      by (cases l) (auto simp: daysBefore_def Let_def split: if_splits)
  next
    case 11 with eq day ld show ?thesis
      by (cases l) (auto simp: daysBefore_def Let_def split: if_splits)
  next
    case 12 with eq day ld dayb show ?thesis
      by (cases l) (auto simp: daysBefore_def Let_def split: if_splits)
  qed
qed

text \<open>
  Hence \<open>date\<close> is injective; so are the decimal digits, \<open>appendInt\<close> and the layout
  \<open>20060102\<close>, whose month and day have two digits each.
\<close>

lemma date_parts:
  assumes "date d = (y, m, dd)"
  shows "1 \<le> m \<and> m \<le> 13 \<and> 1 \<le> dd \<and> dd \<le> 31"
proof -
  obtain yd where a: "absDate d = (y, yd)" and md: "monthDay (isLeap y) yd = (m, dd)"
    using assms by (auto simp: date_def Let_def split: prod.splits)
  from absDate_parts[OF a] have "0 \<le> yd" "yd \<le> 365" by auto
  from monthDay_parts[OF this md] show ?thesis by simp
qed

lemma date_inj:
  assumes "date d = date d'"
  shows "d = d'"
proof -
  obtain y m dd where 1: "date d = (y, m, dd)" by (cases "date d")
  with assms have 2: "date d' = (y, m, dd)" by simp
  from 1 obtain yd where a: "absDate d = (y, yd)" and md: "monthDay (isLeap y) yd = (m, dd)"
    by (auto simp: date_def Let_def split: prod.splits)
  from 2 obtain yd' where a': "absDate d' = (y, yd')" and md': "monthDay (isLeap y) yd' = (m, dd)"
    by (auto simp: date_def Let_def split: prod.splits)
  from absDate_parts[OF a] have b: "0 \<le> yd" "yd \<le> 365" by auto
  from absDate_parts[OF a'] have b': "0 \<le> yd'" "yd' \<le> 365" by auto
  from monthDay_parts[OF b md] monthDay_parts[OF b' md'] have "yd = yd'" by simp
  with a a' show ?thesis by (auto intro: absDate_inj)
qed

lemma digit_value: "d < 10 \<Longrightarrow> of_char (char_of (48 + d :: nat)) = 48 + d"
  by simp

lemma digits_value: "foldl (\<lambda>a c. 10 * a + (of_char c - 48)) 0 (digits n) = n"
proof (induction n rule: digits.induct)
  case (1 u)
  show ?case
  proof (cases "u \<ge> 10")
    case True
    have "of_char (char_of (48 + u mod 10 :: nat)) = 48 + u mod 10"
      by (rule digit_value) simp
    with True 1 show ?thesis by (subst digits.simps) simp
  next
    case False
    then have "of_char (char_of (48 + u :: nat)) = 48 + u" by (intro digit_value) simp
    with False show ?thesis by (subst digits.simps) simp
  qed
qed

lemma digit_not_minus:
  assumes "d < 10"
  shows "char_of (48 + d :: nat) \<noteq> CHR ''-''"
proof
  assume "char_of (48 + d) = CHR ''-''"
  then have "(of_char (char_of (48 + d)) :: nat) = of_char (CHR ''-'')" by (rule arg_cong)
  with digit_value[OF assms] show False by simp
qed

lemma digits_not_minus: "CHR ''-'' \<notin> set (digits n)"
proof (induction n rule: digits.induct)
  case (1 u)
  show ?case
  proof (cases "u \<ge> 10")
    case True
    have "char_of (48 + u mod 10 :: nat) \<noteq> CHR ''-''"
      by (rule digit_not_minus) simp
    with True 1 show ?thesis by (subst digits.simps) auto
  next
    case False
    then have "char_of (48 + u :: nat) \<noteq> CHR ''-''" by (intro digit_not_minus) simp
    with False show ?thesis by (subst digits.simps) auto
  qed
qed

lemma zeros_value:
  "foldl (\<lambda>a c. 10 * a + (of_char c - 48)) (0::nat) (replicate k (CHR ''0'') @ s) =
   foldl (\<lambda>a c. 10 * a + (of_char c - 48)) 0 s"
  by (induction k) simp_all

lemma appendInt_inj:
  assumes "appendInt x w = appendInt y w"
  shows "x = y"
proof -
  let ?v = "foldl (\<lambda>a c. 10 * a + (of_char c - 48)) (0::nat)"
  let ?p = "\<lambda>z. replicate (w - length (digits (nat \<bar>z\<bar>))) (CHR ''0'') @ digits (nat \<bar>z\<bar>)"
  have v: "?v (?p z) = nat \<bar>z\<bar>" for z by (simp only: zeros_value digits_value)
  have nm: "CHR ''-'' \<notin> set (?p z)" for z using digits_not_minus by auto
  have ne: "?p z \<noteq> []" for z
  proof -
    have "?v (digits (nat \<bar>z\<bar>)) = nat \<bar>z\<bar>" by (rule digits_value)
    have "digits (nat \<bar>z\<bar>) \<noteq> []" by (subst digits.simps) simp
    then show ?thesis by simp
  qed
  have hd: "hd (?p z) \<noteq> CHR ''-''" for z using nm[of z] ne[of z] by (metis list.set_sel(1))
  have ax: "appendInt z w = (if z < 0 then CHR ''-'' # ?p z else ?p z)" for z
    by (simp add: appendInt_def Let_def)
  show ?thesis
  proof (cases "x < 0")
    case True
    show ?thesis
    proof (cases "y < 0")
      case yn: True
      with True assms have "?p x = ?p y" by (simp add: ax)
      then have "?v (?p x) = ?v (?p y)" by simp
      then have "nat \<bar>x\<bar> = nat \<bar>y\<bar>" by (simp only: v)
      with True yn show ?thesis by simp
    next
      case yp: False
      with True assms have "CHR ''-'' # ?p x = ?p y" by (simp add: ax)
      then have "hd (?p y) = CHR ''-''" by (metis list.sel(1))
      with hd[of y] show ?thesis by simp
    qed
  next
    case False
    show ?thesis
    proof (cases "y < 0")
      case yn: True
      with False assms have "?p x = CHR ''-'' # ?p y" by (simp add: ax)
      then have "hd (?p x) = CHR ''-''" by (metis list.sel(1))
      with hd[of x] show ?thesis by simp
    next
      case yp: False
      with False assms have "?p x = ?p y" by (simp add: ax)
      then have "?v (?p x) = ?v (?p y)" by simp
      then have "nat \<bar>x\<bar> = nat \<bar>y\<bar>" by (simp only: v)
      with False yp show ?thesis by simp
    qed
  qed
qed

lemma appendInt_length2:
  assumes "0 \<le> x" "x < 100"
  shows "length (appendInt x 2) = 2"
proof -
  have d1: "u < 10 \<Longrightarrow> length (digits u) = 1" for u by (subst digits.simps) simp
  have d2: "10 \<le> u \<Longrightarrow> u < 100 \<Longrightarrow> length (digits u) = 2" for u
    by (subst digits.simps) (simp add: d1)
  show ?thesis
  proof (cases "x < 10")
    case True
    with assms have "length (digits (nat \<bar>x\<bar>)) = 1" by (intro d1) simp
    with assms show ?thesis by (simp add: appendInt_def Let_def)
  next
    case False
    with assms have "length (digits (nat \<bar>x\<bar>)) = 2" by (intro d2) simp_all
    with assms show ?thesis by (simp add: appendInt_def Let_def)
  qed
qed

lemma formatDate_inj:
  assumes "formatDate d = formatDate d'"
  shows "d = d'"
proof -
  obtain y m dd where 1: "date d = (y, m, dd)" by (cases "date d")
  obtain y' m' dd' where 2: "date d' = (y', m', dd')" by (cases "date d'")
  from date_parts[OF 1] date_parts[OF 2] have
    l: "length (appendInt m 2) = 2" "length (appendInt dd 2) = 2"
       "length (appendInt m' 2) = 2" "length (appendInt dd' 2) = 2"
    by (auto intro: appendInt_length2)
  from assms 1 2 have
    "appendInt y 4 @ (appendInt m 2 @ appendInt dd 2) =
     appendInt y' 4 @ (appendInt m' 2 @ appendInt dd' 2)"
    by (simp add: formatDate_def)
  with l have "appendInt y 4 = appendInt y' 4 \<and> appendInt m 2 = appendInt m' 2 \<and>
     appendInt dd 2 = appendInt dd' 2"
    by (subst (asm) append_eq_append_conv) auto
  then have "y = y'" "m = m'" "dd = dd'" by (auto dest: appendInt_inj)
  with 1 2 show ?thesis by (auto intro: date_inj)
qed

lemma appendInt_length4:
  assumes "0 \<le> x" "x < 10000"
  shows "length (appendInt x 4) = 4"
proof -
  have d1: "u < 10 \<Longrightarrow> length (digits u) = 1" for u by (subst digits.simps) simp
  have d2: "10 \<le> u \<Longrightarrow> u < 100 \<Longrightarrow> length (digits u) = 2" for u
    by (subst digits.simps) (simp add: d1)
  have d3: "100 \<le> u \<Longrightarrow> u < 1000 \<Longrightarrow> length (digits u) = 3" for u
    by (subst digits.simps) (simp add: d2)
  have d4: "1000 \<le> u \<Longrightarrow> u < 10000 \<Longrightarrow> length (digits u) = 4" for u
    by (subst digits.simps) (simp add: d3)
  have "length (digits (nat \<bar>x\<bar>)) \<le> 4"
    using assms d1[of "nat \<bar>x\<bar>"] d2[of "nat \<bar>x\<bar>"] d3[of "nat \<bar>x\<bar>"] d4[of "nat \<bar>x\<bar>"]
    by (cases "x < 10"; cases "x < 100"; cases "x < 1000") simp_all
  with assms show ?thesis by (simp add: appendInt_def Let_def)
qed

lemma formatDate_length:
  assumes "date d = (y, m, dd)" "0 \<le> y" "y \<le> 9999"
  shows "length (formatDate d) = 8"
proof -
  from date_parts[OF assms(1)] have "length (appendInt m 2) = 2" "length (appendInt dd 2) = 2"
    by (auto intro: appendInt_length2)
  moreover have "length (appendInt y 4) = 4" using assms by (intro appendInt_length4) simp_all
  ultimately show ?thesis using assms(1) by (simp add: formatDate_def)
qed

text \<open>
  Day numbers along the loop: they grow with the time, and 24 hours later is the next
  day; the saturation of \<open>Sub\<close> does not change the test against 24 hours.
\<close>

lemma absDays_mono: "t \<le> u \<Longrightarrow> absDays t \<le> absDays u"
  by (simp add: absDays_def unixSec_def nsPerSecond_def secondsPerDay_def zdiv_mono1)

lemma absDays_next: "absDays (Add t (Hour * 24)) = absDays t + 1"
proof -
  have "(t + 86400 * 1000000000) div 1000000000 = t div 1000000000 + 86400" by simp
  moreover have "(x + 86400) div 86400 = x div 86400 + 1" for x :: int by simp
  ultimately show ?thesis
    by (simp add: absDays_def unixSec_def nsPerSecond_def secondsPerDay_def Add_def Hour_def)
qed

lemma Sub_less_day: "(Sub e dp < Hour * 24) = (e - dp < 86400000000000)"
  by (simp add: Sub_def Hour_def nsPerSecond_def maxDuration_def minDuration_def)

lemma runQuery_indices_aux:
  assumes f: "\<And>t. ''events-'' @ Format_20060102 t = f (absDays t)"
    and inj: "\<And>d d'. f d = f d' \<Longrightarrow> d = d'"
  shows "dp \<le> e \<Longrightarrow> s \<le> absDays dp \<Longrightarrow> indices = map f [s..absDays dp - 1] \<Longrightarrow>
    runQuery_indices e dp indices = map f [s..absDays e]"
proof (induction e dp indices rule: runQuery_indices.induct)
  case (1 e dp indices)
  define I1 where "I1 = indices @ [f (absDays dp)]"
  have I1: "I1 = map f [s..absDays dp]"
    using "1.prems" by (simp add: I1_def upto_rec2[of s "absDays dp"])
  have step: "runQuery_indices e dp indices =
      (if Sub e dp < Hour * 24
       then (if \<not> (f (absDays e) \<in> set I1) then I1 @ [f (absDays e)] else I1)
       else runQuery_indices e (Add dp (Hour * 24)) I1)"
    by (subst runQuery_indices.simps) (simp only: Let_def f I1_def)
  show ?case
  proof (cases "Sub e dp < Hour * 24")
    case True
    then have lt: "e - dp < 86400000000000" by (simp add: Sub_less_day)
    have "e \<le> Add dp (Hour * 24)" using lt by (simp add: Add_def Hour_def nsPerSecond_def)
    from absDays_mono[OF this] have up: "absDays e \<le> absDays dp + 1" by (simp add: absDays_next)
    have lo: "absDays dp \<le> absDays e" using "1.prems"(1) by (rule absDays_mono)
    have found: "(f (absDays e) \<in> set I1) = (absDays e = absDays dp)"
      using lo "1.prems"(2) unfolding I1 by (auto dest: inj)
    show ?thesis
    proof (cases "absDays e = absDays dp")
      case same: True
      with True found show ?thesis by (simp add: step I1)
    next
      case False
      with lo up have nx: "absDays e = absDays dp + 1" by simp
      have "I1 @ [f (absDays e)] = map f [s..absDays e]"
        using "1.prems"(2) unfolding I1 by (simp add: nx upto_rec2[of s "absDays dp + 1"])
      with True found False show ?thesis by (simp add: step)
    qed
  next
    case False
    then have ge: "\<not> e - dp < 86400000000000" by (simp add: Sub_less_day)
    then have le: "Add dp (Hour * 24) \<le> e" by (simp add: Add_def Hour_def nsPerSecond_def)
    have I1': "indices @ [''events-'' @ Format_20060102 dp] = I1" by (simp only: f I1_def)
    have "runQuery_indices e (Add dp (Hour * 24)) (indices @ [''events-'' @ Format_20060102 dp]) =
       map f [s..absDays e]"
    proof (rule "1.IH"[OF refl refl False le])
      show "s \<le> absDays (Add dp (Hour * 24))" using "1.prems"(2) by (simp add: absDays_next)
      show "indices @ [''events-'' @ Format_20060102 dp] =
        map f [s..absDays (Add dp (Hour * 24)) - 1]"
        unfolding I1' I1 by (simp add: absDays_next)
    qed
    then have "runQuery_indices e (Add dp (Hour * 24)) I1 = map f [s..absDays e]"
      unfolding I1' .
    with False show ?thesis by (simp add: step)
  qed
qed

lemma runQuery_indices_inv:
  "dp \<le> e \<Longrightarrow> s \<le> absDays dp \<Longrightarrow>
   indices = map (\<lambda>d. ''events-'' @ formatDate d) [s..absDays dp - 1] \<Longrightarrow>
   runQuery_indices e dp indices = map (\<lambda>d. ''events-'' @ formatDate d) [s..absDays e]"
  by (rule runQuery_indices_aux) (auto simp: Format_20060102_def dest: formatDate_inj)

text \<open>
  Claim C2: for \<open>start \<le> end\<close> the enumeration is the list of the names
  \<open>events-YYYYMMDD\<close> of the consecutive days from the day of \<open>start\<close> to the day of
  \<open>end\<close>, in ascending order: it is not empty and has no duplicate, its first name is that
  of the day of \<open>start\<close> and its last name that of the day of \<open>end\<close>, and it is a
  single name when both fall on the same day.
\<close>

theorem runQuery_indices_days:
  assumes "start \<le> e"
  shows "runQuery_indices e start [] =
           map (\<lambda>d. ''events-'' @ formatDate d) [absDays start..absDays e] \<and>
         runQuery_indices e start [] \<noteq> [] \<and>
         distinct (runQuery_indices e start []) \<and>
         hd (runQuery_indices e start []) = ''events-'' @ Format_20060102 start \<and>
         last (runQuery_indices e start []) = ''events-'' @ Format_20060102 e \<and>
         (if absDays start = absDays e
          then runQuery_indices e start [] = [''events-'' @ Format_20060102 start]
          else length (runQuery_indices e start []) = nat (absDays e - absDays start) + 1)"
proof -
  let ?f = "\<lambda>d. ''events-'' @ formatDate d"
  have le: "absDays start \<le> absDays e" using assms by (rule absDays_mono)
  have eq: "runQuery_indices e start [] = map ?f [absDays start..absDays e]"
    using assms by (intro runQuery_indices_inv) simp_all
  have ne: "[absDays start..absDays e] \<noteq> []" using le by simp
  have "inj_on ?f (set [absDays start..absDays e])"
    by (auto simp: inj_on_def dest: formatDate_inj)
  then have d: "distinct (map ?f [absDays start..absDays e])"
    by (simp add: distinct_map)
  have h: "hd [absDays start..absDays e] = absDays start" using le by (simp add: upto_rec1)
  have l: "last [absDays start..absDays e] = absDays e" using le by (simp add: upto_rec2)
  have n: "length [absDays start..absDays e] = nat (absDays e - absDays start) + 1"
    using le by (simp add: nat_add_distrib)
  show ?thesis
    using ne d h l n by (simp add: eq hd_map last_map Format_20060102_def del: length_upto)
qed

text \<open>
  From 1 October 2015, 00:00:00, to 3 October 2015, 00:00:00, and to 01:00:00 of the
  same day.
\<close>

lemma Format_20060102_oct1: "Format_20060102 1443657600000000000 = ''20151001''" by code_simp
lemma Format_20060102_oct3: "Format_20060102 1443830400000000000 = ''20151003''" by code_simp
lemma absDays_oct1_1am: "absDays 1443657600000000000 = absDays 1443661200000000000" by code_simp
theorem runQuery_indices_days_witness:
  "runQuery_indices 1443830400000000000 1443657600000000000 [] =
     [''events-20151001'', ''events-20151002'', ''events-20151003''] \<and>
   distinct (runQuery_indices 1443830400000000000 1443657600000000000 []) \<and>
   hd (runQuery_indices 1443830400000000000 1443657600000000000 []) = ''events-20151001'' \<and>
   last (runQuery_indices 1443830400000000000 1443657600000000000 []) = ''events-20151003'' \<and>
   runQuery_indices 1443661200000000000 1443657600000000000 [] = [''events-20151001'']"
proof -
  have "(1443657600000000000::int) \<le> 1443830400000000000" by simp
  from runQuery_indices_days[OF this] have
    a: "distinct (runQuery_indices 1443830400000000000 1443657600000000000 [])" and
    b: "hd (runQuery_indices 1443830400000000000 1443657600000000000 []) =
          ''events-'' @ Format_20060102 1443657600000000000" and
    c: "last (runQuery_indices 1443830400000000000 1443657600000000000 []) =
          ''events-'' @ Format_20060102 1443830400000000000"
    by blast+
  have "(1443657600000000000::int) \<le> 1443661200000000000" by simp
  from runQuery_indices_days[OF this] have
    "if absDays 1443657600000000000 = absDays 1443661200000000000
     then runQuery_indices 1443661200000000000 1443657600000000000 [] =
            [''events-'' @ Format_20060102 1443657600000000000]
     else length (runQuery_indices 1443661200000000000 1443657600000000000 []) =
            nat (absDays 1443661200000000000 - absDays 1443657600000000000) + 1"
    by blast
  with absDays_oct1_1am have
    d: "runQuery_indices 1443661200000000000 1443657600000000000 [] =
          [''events-'' @ Format_20060102 1443657600000000000]"
    by simp
  show ?thesis
    using a b c d by (simp only: Format_20060102_oct1 Format_20060102_oct3 runQuery_indices_october append.simps simp_thms)
qed

end
